theory Spec2Isabelle
  imports Main "HOL-Library.AList"
begin

section \<open>Data model of \<^verbatim>\<open>graph_engine/entities/graph.py\<close>\<close>

text \<open>
  Node ids are Python strings.  A parallel id is \<^verbatim>\<open>str(uuid.uuid4())\<close> in the source;
  the only property of uuid4 the code relies on is that every call yields a fresh id, so
  the \<open>k\<close>-th id generated during one \<^verbatim>\<open>Graph.init\<close> is represented by the number \<open>k\<close>.
  Python dictionaries are association lists in insertion order (the code iterates over
  several of them); \<open>map_of\<close> is the lookup and \<open>AList.update\<close> the assignment
  \<^verbatim>\<open>d[k] = v\<close> (an existing key keeps its place, a new key goes last).
\<close>

type_synonym node_id = string
type_synonym parallel_id = nat

datatype run_condition =
  RunCondition (rc_type: string) (rc_branch_identify: "string option")

record graph_edge =
  source_node_id :: node_id
  target_node_id :: node_id
  run_condition :: "run_condition option"

record graph_parallel =
  gp_id :: parallel_id
  parent_parallel_id :: "parallel_id option"

record graph_state_route =
  route_id :: string
  route_node_id :: node_id

text \<open>
  \<^verbatim>\<open>NodeRunResult\<close> and \<^verbatim>\<open>VariablePool\<close> are classes of other modules; this file stores
  their values and never looks inside.  The pool is a type parameter.
\<close>

typedecl node_run_result

record 'v graph_state =
  routes :: "(node_id \<times> graph_state_route list) list"
  variable_pool :: 'v
  node_route_results :: "(node_id \<times> node_run_result) list"

record next_graph_node =
  ngn_node_id :: node_id
  ngn_parallel :: "graph_parallel option"

type_synonym edge_map = "(node_id \<times> graph_edge list) list"

record 'v graph =
  root_node_id :: node_id
  node_ids :: "node_id list"
  edge_mapping :: edge_map
  parallel_mapping :: "(parallel_id \<times> graph_parallel) list"
  node_parallel_mapping :: "(node_id \<times> parallel_id) list"
  run_state :: "'v graph_state"

text \<open>The raw configuration: the keys \<^verbatim>\<open>Graph.init\<close> reads, each possibly absent.\<close>

record edge_config =
  ec_source :: "string option"
  ec_target :: "string option"
  ec_sourceHandle :: "string option"

record node_data =
  nd_type :: "string option"

record node_config =
  nc_id :: "string option"
  nc_data :: "node_data option"

record graph_config =
  gc_edges :: "edge_config list option"
  gc_nodes :: "node_config list option"

text \<open>Every \<^verbatim>\<open>raise\<close> and failing lookup of the source is a value of this type.\<close>

datatype error =
  GraphMustHaveNode \<comment> \<open>\<^verbatim>\<open>ValueError("Graph must have at least one node")\<close>\<close>
  | RootNodeNotFound \<comment> \<open>\<^verbatim>\<open>ValueError(f"Root node id {root_node_id} not found in the graph")\<close>\<close>
  | KeyError_routes node_id \<comment> \<open>\<^verbatim>\<open>self.run_state.routes[self.root_node_id]\<close>\<close>
  | KeyError_parallel_mapping parallel_id \<comment> \<open>\<^verbatim>\<open>self.parallel_mapping[...]\<close>\<close>
  | ConditionError string \<comment> \<open>whatever the external condition handler raises\<close>

section \<open>Helpers for Python idioms\<close>

text \<open>\<^verbatim>\<open>not x\<close> for a value that is \<^verbatim>\<open>None\<close> or a string.\<close>

definition falsy :: "string option \<Rightarrow> bool" where
  "falsy x = (case x of None \<Rightarrow> True | Some s \<Rightarrow> s = [])"

text \<open>\<^verbatim>\<open>edge_mapping.get(node_id, [])\<close>.\<close>

definition edges_get :: "edge_map \<Rightarrow> node_id \<Rightarrow> graph_edge list" where
  "edges_get em n = (case map_of em n of None \<Rightarrow> [] | Some es \<Rightarrow> es)"

text \<open>\<^verbatim>\<open>if k not in d: d[k] = []\<close>.\<close>

definition setdefault_empty :: "'k \<Rightarrow> ('k \<times> 'a list) list \<Rightarrow> ('k \<times> 'a list) list" where
  "setdefault_empty k d = (case map_of d k of None \<Rightarrow> AList.update k [] d | Some _ \<Rightarrow> d)"

section \<open>Mutation and query helpers\<close>

text \<open>\<^verbatim>\<open>Graph.add_extra_edge\<close>: the graph is mutated in place, so the model returns it.\<close>

definition add_extra_edge ::
  "'v graph \<Rightarrow> node_id \<Rightarrow> node_id \<Rightarrow> run_condition option \<Rightarrow> 'v graph" where
  "add_extra_edge g src tgt cond =
     (if src \<notin> set (node_ids g) \<or> tgt \<notin> set (node_ids g) then g
      else
        let em1 = setdefault_empty src (edge_mapping g) in
        if tgt \<in> set (map target_node_id (edges_get em1 src)) then g\<lparr>edge_mapping := em1\<rparr>
        else
          let graph_edge = \<lparr>source_node_id = src, target_node_id = tgt, run_condition = cond\<rparr>
          in g\<lparr>edge_mapping := AList.update src (edges_get em1 src @ [graph_edge]) em1\<rparr>)"

text \<open>\<^verbatim>\<open>Graph.get_leaf_node_ids\<close>.\<close>

definition is_leaf_entry :: "'v graph \<Rightarrow> node_id \<Rightarrow> bool" where
  "is_leaf_entry g n =
     (case map_of (edge_mapping g) n of
        None \<Rightarrow> True
      | Some es \<Rightarrow> length es = 1 \<and> target_node_id (hd es) = root_node_id g)"

definition get_leaf_node_ids :: "'v graph \<Rightarrow> node_id list" where
  "get_leaf_node_ids g = filter (is_leaf_entry g) (node_ids g)"

section \<open>Execution frontier\<close>

text \<open>
  \<^verbatim>\<open>Graph.next_node_ids\<close>.  The condition handler
  (\<^verbatim>\<open>ConditionManager.get_condition_handler(...).check(...)\<close>) is not part of this file of the
  repository; it is the parameter \<open>check\<close>, which may fail.
\<close>

type_synonym 'v condition_check =
  "run_condition \<Rightarrow> node_id \<Rightarrow> node_id \<Rightarrow> 'v graph \<Rightarrow> error + bool"

text \<open>The first loop: the edges out of the recorded route steps whose target is no key of \<open>routes\<close>.\<close>

definition route_final_graph_edges ::
  "'v graph \<Rightarrow> graph_state_route list \<Rightarrow> graph_edge list" where
  "route_final_graph_edges g rs =
     concat (map (\<lambda>route.
        filter (\<lambda>edge. map_of (routes (run_state g)) (target_node_id edge) = None)
          (edges_get (edge_mapping g) (route_node_id route))) rs)"

text \<open>The scope lookup \<^verbatim>\<open>self.parallel_mapping[self.node_parallel_mapping[node_id]]\<close>.\<close>

definition lookup_parallel :: "'v graph \<Rightarrow> node_id \<Rightarrow> error + graph_parallel option" where
  "lookup_parallel g n =
     (case map_of (node_parallel_mapping g) n of
        None \<Rightarrow> Inr None
      | Some pid \<Rightarrow>
          (case map_of (parallel_mapping g) pid of
             None \<Rightarrow> Inl (KeyError_parallel_mapping pid)
           | Some p \<Rightarrow> Inr (Some p)))"

text \<open>The second loop, over the collected edges.\<close>

fun next_graph_nodes ::
  "'v condition_check \<Rightarrow> 'v graph \<Rightarrow> graph_edge list \<Rightarrow> error + next_graph_node list" where
  "next_graph_nodes check g [] = Inr []"
| "next_graph_nodes check g (e # es) =
     (case (case run_condition e of
              None \<Rightarrow> Inr True
            | Some rc \<Rightarrow> check rc (source_node_id e) (target_node_id e) g) of
        Inl err \<Rightarrow> Inl err
      | Inr result \<Rightarrow>
          if \<not> result then next_graph_nodes check g es
          else
            (case lookup_parallel g (target_node_id e) of
               Inl err \<Rightarrow> Inl err
             | Inr parallel \<Rightarrow>
                 (case next_graph_nodes check g es of
                    Inl err \<Rightarrow> Inl err
                  | Inr rest \<Rightarrow>
                      Inr (\<lparr>ngn_node_id = target_node_id e, ngn_parallel = parallel\<rparr> # rest))))"

definition next_node_ids ::
  "'v condition_check \<Rightarrow> 'v graph \<Rightarrow> error + next_graph_node list" where
  "next_node_ids check g =
     (if routes (run_state g) = [] then
        Inr [\<lparr>ngn_node_id = root_node_id g, ngn_parallel = None\<rparr>]
      else
        (case map_of (routes (run_state g)) (root_node_id g) of
           None \<Rightarrow> Inl (KeyError_routes (root_node_id g))
         | Some rs \<Rightarrow> next_graph_nodes check g (route_final_graph_edges g rs)))"


section \<open>Reachable closure\<close>

text \<open>Every target stored in the mapping: the finite universe the guarded walks stay in.\<close>

definition all_targets :: "edge_map \<Rightarrow> node_id set" where
  "all_targets em = \<Union> (set (map (\<lambda>kv. target_node_id ` set (snd kv)) em))"

text \<open>
  \<^verbatim>\<open>Graph._recursively_add_node_ids\<close>.  The list \<^verbatim>\<open>node_ids\<close> is mutated in place and
  shared by all recursive calls, so the model threads it through and returns it.  The
  first function is the \<^verbatim>\<open>for graph_edge in ...\<close> loop (the rest of the edge list is its
  third argument); the recursive call inside the loop body is the nested call.
\<close>

function recursively_add_node_ids_loop ::
  "edge_map \<Rightarrow> node_id list \<Rightarrow> graph_edge list \<Rightarrow> node_id list" where
  "recursively_add_node_ids_loop em ids [] = ids"
| "recursively_add_node_ids_loop em ids (e # es) =
     (if target_node_id e \<in> set ids then recursively_add_node_ids_loop em ids es
      else recursively_add_node_ids_loop em
             (recursively_add_node_ids_loop em (ids @ [target_node_id e])
                (edges_get em (target_node_id e)))
             es)"
  by pat_completeness auto
termination
proof (relation "inv_image (less_than <*lex*> less_than)
         (\<lambda>(em, ids, es). (card ((all_targets em \<union> target_node_id ` set es) - set ids), length es))",
       goal_cases)
  case 1
  show ?case by (intro wf_inv_image wf_lex_prod wf_less_than)
next
  case (2 em ids e es)
  then have "(all_targets em \<union> target_node_id ` set (e # es)) - set ids
               = (all_targets em \<union> target_node_id ` set es) - set ids"
    by auto
  then show ?case by simp
next
  case (3 em ids e es)
  have sub: "target_node_id ` set (edges_get em (target_node_id e)) \<subseteq> all_targets em"
  proof (cases "map_of em (target_node_id e)")
    case None
    then show ?thesis by (simp add: edges_get_def)
  next
    case (Some es)
    then have "(target_node_id e, es) \<in> set em"
      by (rule map_of_SomeD)
    then have "target_node_id ` set es \<subseteq> all_targets em"
      by (force simp add: all_targets_def)
    with Some show ?thesis by (simp add: edges_get_def)
  qed
  have "(all_targets em \<union> target_node_id ` set (edges_get em (target_node_id e)))
            - set (ids @ [target_node_id e])
          \<subset> (all_targets em \<union> target_node_id ` set (e # es)) - set ids"
    using 3 sub by auto
  moreover have "finite ((all_targets em \<union> target_node_id ` set (e # es)) - set ids)"
    by (simp add: all_targets_def)
  ultimately show ?case by (simp add: psubset_card_mono)
next
  case (4 em ids e es)
  have grow: "set ids' \<subseteq> set (recursively_add_node_ids_loop em' ids' es')"
    if "recursively_add_node_ids_loop_dom (em', ids', es')" for em' ids' es'
    using that
    by (induction em' ids' es' rule: recursively_add_node_ids_loop.pinduct)
       (auto simp add: recursively_add_node_ids_loop.psimps)
  have "set (ids @ [target_node_id e])
          \<subseteq> set (recursively_add_node_ids_loop em (ids @ [target_node_id e])
                   (edges_get em (target_node_id e)))"
    using 4 by (intro grow)
  then have "(all_targets em \<union> target_node_id ` set es)
            - set (recursively_add_node_ids_loop em (ids @ [target_node_id e])
                     (edges_get em (target_node_id e)))
          \<subset> (all_targets em \<union> target_node_id ` set (e # es)) - set ids"
    using 4 by auto
  moreover have "finite ((all_targets em \<union> target_node_id ` set (e # es)) - set ids)"
    by (simp add: all_targets_def)
  ultimately show ?case by (simp add: psubset_card_mono)
qed

definition recursively_add_node_ids :: "edge_map \<Rightarrow> node_id list \<Rightarrow> node_id \<Rightarrow> node_id list" where
  "recursively_add_node_ids em ids n = recursively_add_node_ids_loop em ids (edges_get em n)"


section \<open>Branch closures and bounded branch walks\<close>

text \<open>
  \<^verbatim>\<open>Graph._recursively_fetch_routes\<close>: the same guarded walk, on the list
  \<^verbatim>\<open>routes_node_ids\<close>; the start node itself is not added.
\<close>

function recursively_fetch_routes_loop ::
  "edge_map \<Rightarrow> node_id list \<Rightarrow> graph_edge list \<Rightarrow> node_id list" where
  "recursively_fetch_routes_loop em rts [] = rts"
| "recursively_fetch_routes_loop em rts (e # es) =
     (if target_node_id e \<notin> set rts then
        recursively_fetch_routes_loop em
          (recursively_fetch_routes_loop em (rts @ [target_node_id e])
             (edges_get em (target_node_id e)))
          es
      else recursively_fetch_routes_loop em rts es)"
  by pat_completeness auto
termination
proof (relation "inv_image (less_than <*lex*> less_than)
         (\<lambda>(em, rts, es). (card ((all_targets em \<union> target_node_id ` set es) - set rts), length es))",
       goal_cases)
  case 1
  show ?case by (intro wf_inv_image wf_lex_prod wf_less_than)
next
  case (2 em rts e es)
  have sub: "target_node_id ` set (edges_get em (target_node_id e)) \<subseteq> all_targets em"
  proof (cases "map_of em (target_node_id e)")
    case None
    then show ?thesis by (simp add: edges_get_def)
  next
    case (Some es')
    then have "(target_node_id e, es') \<in> set em"
      by (rule map_of_SomeD)
    then have "target_node_id ` set es' \<subseteq> all_targets em"
      by (force simp add: all_targets_def)
    with Some show ?thesis by (simp add: edges_get_def)
  qed
  have "(all_targets em \<union> target_node_id ` set (edges_get em (target_node_id e)))
            - set (rts @ [target_node_id e])
          \<subset> (all_targets em \<union> target_node_id ` set (e # es)) - set rts"
    using 2 sub by auto
  moreover have "finite ((all_targets em \<union> target_node_id ` set (e # es)) - set rts)"
    by (simp add: all_targets_def)
  ultimately show ?case by (simp add: psubset_card_mono)
next
  case (3 em rts e es)
  have grow: "set rts' \<subseteq> set (recursively_fetch_routes_loop em' rts' es')"
    if "recursively_fetch_routes_loop_dom (em', rts', es')" for em' rts' es'
    using that
    by (induction em' rts' es' rule: recursively_fetch_routes_loop.pinduct)
       (auto simp add: recursively_fetch_routes_loop.psimps)
  have "set (rts @ [target_node_id e])
          \<subseteq> set (recursively_fetch_routes_loop em (rts @ [target_node_id e])
                   (edges_get em (target_node_id e)))"
    using 3 by (intro grow)
  then have "(all_targets em \<union> target_node_id ` set es)
            - set (recursively_fetch_routes_loop em (rts @ [target_node_id e])
                     (edges_get em (target_node_id e)))
          \<subset> (all_targets em \<union> target_node_id ` set (e # es)) - set rts"
    using 3 by auto
  moreover have "finite ((all_targets em \<union> target_node_id ` set (e # es)) - set rts)"
    by (simp add: all_targets_def)
  ultimately show ?case by (simp add: psubset_card_mono)
next
  case (4 em rts e es)
  then have "(all_targets em \<union> target_node_id ` set (e # es)) - set rts
               = (all_targets em \<union> target_node_id ` set es) - set rts"
    by auto
  then show ?case by simp
qed

definition recursively_fetch_routes :: "edge_map \<Rightarrow> node_id \<Rightarrow> node_id list \<Rightarrow> node_id list" where
  "recursively_fetch_routes em start rts =
     (case map_of em start of
        None \<Rightarrow> rts
      | Some es \<Rightarrow> recursively_fetch_routes_loop em rts es)"

text \<open>
  \<^verbatim>\<open>Graph._recursively_add_parallel_node_ids\<close>: the walk that does not enter the merge
  node.
\<close>

function recursively_add_parallel_node_ids_loop ::
  "edge_map \<Rightarrow> node_id \<Rightarrow> node_id list \<Rightarrow> graph_edge list \<Rightarrow> node_id list" where
  "recursively_add_parallel_node_ids_loop em merge ids [] = ids"
| "recursively_add_parallel_node_ids_loop em merge ids (e # es) =
     (if target_node_id e \<noteq> merge \<and> target_node_id e \<notin> set ids then
        recursively_add_parallel_node_ids_loop em merge
          (recursively_add_parallel_node_ids_loop em merge (ids @ [target_node_id e])
             (edges_get em (target_node_id e)))
          es
      else recursively_add_parallel_node_ids_loop em merge ids es)"
  by pat_completeness auto
termination
proof (relation "inv_image (less_than <*lex*> less_than)
         (\<lambda>(em, merge, ids, es).
            (card ((all_targets em \<union> target_node_id ` set es) - set ids), length es))",
       goal_cases)
  case 1
  show ?case by (intro wf_inv_image wf_lex_prod wf_less_than)
next
  case (2 em merge ids e es)
  have sub: "target_node_id ` set (edges_get em (target_node_id e)) \<subseteq> all_targets em"
  proof (cases "map_of em (target_node_id e)")
    case None
    then show ?thesis by (simp add: edges_get_def)
  next
    case (Some es')
    then have "(target_node_id e, es') \<in> set em"
      by (rule map_of_SomeD)
    then have "target_node_id ` set es' \<subseteq> all_targets em"
      by (force simp add: all_targets_def)
    with Some show ?thesis by (simp add: edges_get_def)
  qed
  have "(all_targets em \<union> target_node_id ` set (edges_get em (target_node_id e)))
            - set (ids @ [target_node_id e])
          \<subset> (all_targets em \<union> target_node_id ` set (e # es)) - set ids"
    using 2 sub by auto
  moreover have "finite ((all_targets em \<union> target_node_id ` set (e # es)) - set ids)"
    by (simp add: all_targets_def)
  ultimately show ?case by (simp add: psubset_card_mono)
next
  case (3 em merge ids e es)
  have grow: "set ids' \<subseteq> set (recursively_add_parallel_node_ids_loop em' m' ids' es')"
    if "recursively_add_parallel_node_ids_loop_dom (em', m', ids', es')" for em' m' ids' es'
    using that
    by (induction em' m' ids' es' rule: recursively_add_parallel_node_ids_loop.pinduct)
       (auto simp add: recursively_add_parallel_node_ids_loop.psimps)
  have "set (ids @ [target_node_id e])
          \<subseteq> set (recursively_add_parallel_node_ids_loop em merge (ids @ [target_node_id e])
                   (edges_get em (target_node_id e)))"
    using 3 by (intro grow)
  then have "(all_targets em \<union> target_node_id ` set es)
            - set (recursively_add_parallel_node_ids_loop em merge (ids @ [target_node_id e])
                     (edges_get em (target_node_id e)))
          \<subset> (all_targets em \<union> target_node_id ` set (e # es)) - set ids"
    using 3 by auto
  moreover have "finite ((all_targets em \<union> target_node_id ` set (e # es)) - set ids)"
    by (simp add: all_targets_def)
  ultimately show ?case by (simp add: psubset_card_mono)
next
  case (4 em merge ids e es)
  have "(all_targets em \<union> target_node_id ` set es) - set ids
          \<subseteq> (all_targets em \<union> target_node_id ` set (e # es)) - set ids"
    by auto
  moreover have "finite ((all_targets em \<union> target_node_id ` set (e # es)) - set ids)"
    by (simp add: all_targets_def)
  ultimately have "card ((all_targets em \<union> target_node_id ` set es) - set ids)
          \<le> card ((all_targets em \<union> target_node_id ` set (e # es)) - set ids)"
    by (intro card_mono)
  then show ?case by auto
qed

definition recursively_add_parallel_node_ids ::
  "node_id list \<Rightarrow> edge_map \<Rightarrow> node_id \<Rightarrow> node_id \<Rightarrow> node_id list" where
  "recursively_add_parallel_node_ids branch_node_ids em merge_node_id start =
     recursively_add_parallel_node_ids_loop em merge_node_id branch_node_ids (edges_get em start)"


section \<open>Parallel region detection\<close>

text \<open>
  \<^verbatim>\<open>Graph._fetch_all_node_ids_in_parallels\<close>, one definition per loop of the source.
  The dictionary \<^verbatim>\<open>leaf_node_ids\<close> the source also fills there (a node is a leaf when it
  is \<^verbatim>\<open>not in edge_mapping or len(edge_mapping[node_id]) == 0\<close>) is never read again and
  has no counterpart here.
\<close>

definition fetch_routes_node_ids :: "edge_map \<Rightarrow> node_id list \<Rightarrow> (node_id \<times> node_id list) list" where
  "fetch_routes_node_ids em parallel_node_ids =
     fold (\<lambda>parallel_node_id routes_node_ids.
             AList.update parallel_node_id (recursively_fetch_routes em parallel_node_id [])
               routes_node_ids)
       parallel_node_ids []"

text \<open>The body of the innermost loop: \<^verbatim>\<open>merge_branch_node_ids[node_id].append(branch_node_id2)\<close>.\<close>

definition add_merge_branch ::
  "node_id \<Rightarrow> node_id \<Rightarrow> node_id \<times> node_id list \<Rightarrow> (node_id \<times> node_id list) list
     \<Rightarrow> (node_id \<times> node_id list) list" where
  "add_merge_branch branch_node_id n item2 merge_branch_node_ids =
     (if branch_node_id \<noteq> fst item2 \<and> n \<in> set (snd item2) then
        (let m1 = setdefault_empty n merge_branch_node_ids
         in AList.update n ((case map_of m1 n of None \<Rightarrow> [] | Some bs \<Rightarrow> bs) @ [fst item2]) m1)
      else merge_branch_node_ids)"

definition fetch_merge_branch_node_ids ::
  "(node_id \<times> node_id list) list \<Rightarrow> (node_id \<times> node_id list) list" where
  "fetch_merge_branch_node_ids routes_node_ids =
     fold (\<lambda>item m.
             fold (\<lambda>n m'. fold (add_merge_branch (fst item) n) routes_node_ids m') (snd item) m)
       routes_node_ids []"

text \<open>
  \<^verbatim>\<open>dict(sorted(merge_branch_node_ids.items(), key=lambda x: len(x[1]), reverse=True))\<close>:
  Python's sort is stable, also with \<^verbatim>\<open>reverse=True\<close>; so is \<open>sort_key\<close>.
\<close>

definition sort_merge_branch_node_ids ::
  "(node_id \<times> node_id list) list \<Rightarrow> (node_id \<times> node_id list) list" where
  "sort_merge_branch_node_ids m = sort_key (\<lambda>x. - int (length (snd x))) m"

definition assign_branches_merge_node_ids ::
  "(node_id \<times> node_id list) list \<Rightarrow> (node_id \<times> node_id) list" where
  "assign_branches_merge_node_ids merge_branch_node_ids =
     fold (\<lambda>item branches_merge_node_ids.
             if length (snd item) \<le> 1 then branches_merge_node_ids
             else
               fold (\<lambda>branch_node_id b.
                       (case map_of b branch_node_id of
                          Some _ \<Rightarrow> b
                        | None \<Rightarrow> AList.update branch_node_id (fst item) b))
                 (snd item) branches_merge_node_ids)
       merge_branch_node_ids []"

definition fetch_all_node_ids_in_parallels ::
  "edge_map \<Rightarrow> node_id list \<Rightarrow> (node_id \<times> node_id list) list" where
  "fetch_all_node_ids_in_parallels em parallel_node_ids =
     (let routes_node_ids = fetch_routes_node_ids em parallel_node_ids;
          merge_branch_node_ids =
            sort_merge_branch_node_ids (fetch_merge_branch_node_ids routes_node_ids);
          branches_merge_node_ids = assign_branches_merge_node_ids merge_branch_node_ids
      in map (\<lambda>item.
                (fst item,
                 (case map_of branches_merge_node_ids (fst item) of
                    None \<Rightarrow> [fst item] @ snd item
                  | Some merge_node_id \<Rightarrow>
                      recursively_add_parallel_node_ids [fst item] em merge_node_id (fst item))))
           routes_node_ids)"

text \<open>
  The state \<^verbatim>\<open>_recursively_add_parallels\<close> mutates: the two dictionaries, and the number of
  ids uuid4 has handed out so far.
\<close>

record parallels_state =
  ps_parallel_mapping :: "(parallel_id \<times> graph_parallel) list"
  ps_node_parallel_mapping :: "(node_id \<times> parallel_id) list"
  ps_uuid_count :: nat

text \<open>Lines 321--323: the parent of the scope about to be created.\<close>

definition fetch_parent_parallel_id ::
  "(node_id \<times> parallel_id) list \<Rightarrow> node_id list \<Rightarrow> parallel_id option" where
  "fetch_parent_parallel_id npm parallel_node_ids =
     (if list_all (\<lambda>n. map_of npm n \<noteq> None) parallel_node_ids
      then map_of npm (hd parallel_node_ids)
      else None)"

text \<open>The targets of the conditioned edges, lines 315--316.\<close>

definition fetch_parallel_node_ids :: "graph_edge list \<Rightarrow> node_id list" where
  "fetch_parallel_node_ids target_node_edges =
     map target_node_id (filter (\<lambda>e. run_condition e \<noteq> None) target_node_edges)"

text \<open>
  The part of \<^verbatim>\<open>_recursively_add_parallels\<close> before its recursive calls (lines 313--333).
  The dictionary comprehension of line 333 iterates over the dictionary
  \<^verbatim>\<open>in_branch_node_ids\<close>, that is over its keys.
\<close>

definition add_parallel_at :: "edge_map \<Rightarrow> graph_edge list \<Rightarrow> parallels_state \<Rightarrow> parallels_state" where
  "add_parallel_at em target_node_edges st =
     (if length target_node_edges > 1 then
        (let parallel_node_ids = fetch_parallel_node_ids target_node_edges in
         if parallel_node_ids \<noteq> [] then
           (let parallel =
                  \<lparr>gp_id = ps_uuid_count st,
                   parent_parallel_id =
                     fetch_parent_parallel_id (ps_node_parallel_mapping st) parallel_node_ids\<rparr>;
                in_branch_node_ids = fetch_all_node_ids_in_parallels em parallel_node_ids
            in \<lparr>ps_parallel_mapping =
                   AList.update (gp_id parallel) parallel (ps_parallel_mapping st),
                 ps_node_parallel_mapping =
                   fold (\<lambda>n m. AList.update n (gp_id parallel) m) (map fst in_branch_node_ids)
                     (ps_node_parallel_mapping st),
                 ps_uuid_count = Suc (ps_uuid_count st)\<rparr>)
         else st)
      else st)"

text \<open>
  \<^verbatim>\<open>Graph._recursively_add_parallels\<close>.  The walk has no visited set, so on a cyclic
  mapping it does not return; the first argument bounds the depth of the nested calls
  (as the interpreter's recursion limit does), and \<open>None\<close> is a walk that exceeded it.
\<close>

fun recursively_add_parallels ::
    "nat \<Rightarrow> edge_map \<Rightarrow> node_id \<Rightarrow> parallels_state \<Rightarrow> parallels_state option"
  and recursively_add_parallels_loop ::
    "nat \<Rightarrow> edge_map \<Rightarrow> graph_edge list \<Rightarrow> parallels_state \<Rightarrow> parallels_state option" where
  "recursively_add_parallels 0 em start_node_id st = None"
| "recursively_add_parallels (Suc depth) em start_node_id st =
     (let target_node_edges = edges_get em start_node_id
      in recursively_add_parallels_loop depth em target_node_edges
           (add_parallel_at em target_node_edges st))"
| "recursively_add_parallels_loop depth em [] st = Some st"
| "recursively_add_parallels_loop depth em (e # es) st =
     (case recursively_add_parallels depth em (target_node_id e) st of
        None \<Rightarrow> None
      | Some st' \<Rightarrow> recursively_add_parallels_loop depth em es st')"

section \<open>Topology builder\<close>

text \<open>One round of the loop over \<^verbatim>\<open>edge_configs\<close> (lines 100--128).\<close>

definition init_edge :: "edge_config \<Rightarrow> edge_map \<times> node_id set \<Rightarrow> edge_map \<times> node_id set" where
  "init_edge edge_config acc =
     (case ec_source edge_config of
        None \<Rightarrow> acc
      | Some src \<Rightarrow>
          if src = [] then acc
          else
            (let em1 = setdefault_empty src (fst acc) in
             case ec_target edge_config of
               None \<Rightarrow> (em1, snd acc)
             | Some tgt \<Rightarrow>
                 if tgt = [] then (em1, snd acc)
                 else
                   (let cond =
                          (if falsy (ec_sourceHandle edge_config) then None
                           else Some (RunCondition ''branch_identify'' (ec_sourceHandle edge_config)));
                        graph_edge =
                          \<lparr>source_node_id = src, target_node_id = tgt, run_condition = cond\<rparr>
                    in (AList.update src (edges_get em1 src @ [graph_edge]) em1,
                        insert tgt (snd acc)))))"

definition init_edges :: "edge_config list \<Rightarrow> edge_map \<times> node_id set" where
  "init_edges edge_configs = fold init_edge edge_configs ([], {})"

text \<open>The nodes that have no predecessor (lines 138--147).\<close>

definition fetch_root_node_configs :: "node_config list \<Rightarrow> node_id set \<Rightarrow> node_config list" where
  "fetch_root_node_configs node_configs target_edge_ids =
     filter (\<lambda>nc. case nc_id nc of
                     None \<Rightarrow> False
                   | Some i \<Rightarrow> i \<noteq> [] \<and> i \<notin> target_edge_ids)
       node_configs"

text \<open>\<^verbatim>\<open>node_config.get('data', {}).get('type', '')\<close>.\<close>

definition node_config_type :: "node_config \<Rightarrow> string" where
  "node_config_type nc =
     (case nc_data nc of
        None \<Rightarrow> []
      | Some d \<Rightarrow> (case nd_type d of None \<Rightarrow> [] | Some t \<Rightarrow> t))"

text \<open>
  Modelled from the spec: \<^verbatim>\<open>NodeType.START.value\<close>, a constant of
  \<^verbatim>\<open>core.workflow.entities.node_entities\<close>, which is not among the sources; the spec calls
  it the designated "start" kind.
\<close>

definition NodeType_START_value :: string where
  "NodeType_START_value = ''start''"

text \<open>
  What the variable \<^verbatim>\<open>root_node_id\<close> holds after lines 150--153: \<^verbatim>\<open>None\<close>, the string
  the caller passed, or --- since the generator of line 152 yields \<^verbatim>\<open>node_config\<close> ---
  a node configuration, which is a dictionary.
\<close>

datatype root_value = RootNone | RootStr string | RootConfig node_config

definition fetch_root_node :: "string option \<Rightarrow> node_config list \<Rightarrow> root_value" where
  "fetch_root_node root_id root_node_configs =
     (if falsy root_id then
        (case filter (\<lambda>nc. node_config_type nc = NodeType_START_value) root_node_configs of
           [] \<Rightarrow> RootNone
         | nc # _ \<Rightarrow> RootConfig nc)
      else (case root_id of None \<Rightarrow> RootNone | Some r \<Rightarrow> RootStr r))"

text \<open>
  The test of line 155, \<^verbatim>\<open>not root_node_id or root_node_id not in root_node_ids\<close>:
  \<open>None\<close> when it raises, the root id when it passes.  \<^verbatim>\<open>root_node_ids\<close> is a list of
  strings (the non-empty ids of the candidates); a dictionary is truthy when it has a key,
  and it equals no string, so \<^verbatim>\<open>in\<close> is false for it.
\<close>

definition check_root_node :: "root_value \<Rightarrow> string option list \<Rightarrow> node_id option" where
  "check_root_node root root_node_ids =
     (case root of
        RootNone \<Rightarrow> None
      | RootStr r \<Rightarrow> if r \<noteq> [] \<and> Some r \<in> set root_node_ids then Some r else None
      | RootConfig nc \<Rightarrow> None)"

text \<open>\<^verbatim>\<open>Graph.init\<close>; \<open>depth\<close> is the bound on the depth of the unguarded walk.\<close>

definition init ::
  "nat \<Rightarrow> graph_config \<Rightarrow> 'v \<Rightarrow> string option \<Rightarrow> (error + 'v graph) option" where
  "init depth graph_config vpool root_id =
     (let edge_configs = (case gc_edges graph_config of None \<Rightarrow> [] | Some cs \<Rightarrow> cs);
          em = fst (init_edges edge_configs);
          target_edge_ids = snd (init_edges edge_configs)
      in case gc_nodes graph_config of
           None \<Rightarrow> Some (Inl GraphMustHaveNode)
         | Some node_configs \<Rightarrow>
             if node_configs = [] then Some (Inl GraphMustHaveNode)
             else
               (let root_node_configs = fetch_root_node_configs node_configs target_edge_ids;
                    root_node_ids = map nc_id root_node_configs
                in case check_root_node (fetch_root_node root_id root_node_configs)
                          root_node_ids of
                     None \<Rightarrow> Some (Inl RootNodeNotFound)
                   | Some root \<Rightarrow>
                       (let ids = recursively_add_node_ids em [root] root
                        in case recursively_add_parallels depth em root
                                  \<lparr>ps_parallel_mapping = [], ps_node_parallel_mapping = [],
                                   ps_uuid_count = 0\<rparr> of
                             None \<Rightarrow> None
                           | Some st \<Rightarrow>
                               Some (Inr \<lparr>root_node_id = root, node_ids = ids,
                                          edge_mapping = em,
                                          parallel_mapping = ps_parallel_mapping st,
                                          node_parallel_mapping = ps_node_parallel_mapping st,
                                          run_state =
                                            \<lparr>routes = [], variable_pool = vpool,
                                             node_route_results = []\<rparr>\<rparr>))))"

section \<open>Values used to state and instantiate the properties\<close>

text \<open>
  The driving engine owns \<^verbatim>\<open>run_state.routes\<close>; \<open>with_routes\<close> is a graph after the
  engine has replaced the routes.
\<close>

definition with_routes ::
  "'v graph \<Rightarrow> (node_id \<times> graph_state_route list) list \<Rightarrow> 'v graph" where
  "with_routes g rts = g\<lparr>run_state := (run_state g)\<lparr>routes := rts\<rparr>\<rparr>"

text \<open>A condition handler that rejects every conditioned edge, and small concrete graphs.\<close>

definition no_condition_check :: "unit condition_check" where
  "no_condition_check rc s t g = Inr False"

definition ex_edge :: "node_id \<Rightarrow> node_id \<Rightarrow> graph_edge" where
  "ex_edge s t = \<lparr>source_node_id = s, target_node_id = t, run_condition = None\<rparr>"

definition ex_graph ::
  "edge_map \<Rightarrow> node_id list \<Rightarrow> (node_id \<times> graph_state_route list) list \<Rightarrow> unit graph" where
  "ex_graph em ids rts =
     \<lparr>root_node_id = ''A'', node_ids = ids, edge_mapping = em,
      parallel_mapping = [], node_parallel_mapping = [],
      run_state = \<lparr>routes = rts, variable_pool = (), node_route_results = []\<rparr>\<rparr>"

text \<open>
  The leaf nodes as the specification words them: a node with no outgoing edge, or whose
  single outgoing edge targets the root; in the order of \<open>node_ids\<close>.
\<close>

definition spec_is_leaf :: "'v graph \<Rightarrow> node_id \<Rightarrow> bool" where
  "spec_is_leaf g n =
     (case edges_get (edge_mapping g) n of
        [] \<Rightarrow> True
      | [e] \<Rightarrow> target_node_id e = root_node_id g
      | _ \<Rightarrow> False)"

definition spec_leaf_node_ids :: "'v graph \<Rightarrow> node_id list" where
  "spec_leaf_node_ids g = filter (spec_is_leaf g) (node_ids g)"

text \<open>A configuration whose only edge entry has a source and no target.\<close>

definition dangling_edge_config :: graph_config where
  "dangling_edge_config =
     \<lparr>gc_edges = Some [\<lparr>ec_source = Some ''A'', ec_target = None, ec_sourceHandle = None\<rparr>],
      gc_nodes = Some [\<lparr>nc_id = Some ''A'', nc_data = Some \<lparr>nd_type = Some ''start''\<rparr>\<rparr>]\<rparr>"

text \<open>Concrete configurations: entries with every key present, and three small graphs.\<close>

definition edge_cfg :: "string \<Rightarrow> string \<Rightarrow> string option \<Rightarrow> edge_config" where
  "edge_cfg s t h = \<lparr>ec_source = Some s, ec_target = Some t, ec_sourceHandle = h\<rparr>"

definition node_cfg :: "string \<Rightarrow> string \<Rightarrow> node_config" where
  "node_cfg i t = \<lparr>nc_id = Some i, nc_data = Some \<lparr>nd_type = Some t\<rparr>\<rparr>"

definition start_config :: graph_config where
  "start_config =
     \<lparr>gc_edges = Some [edge_cfg ''A'' ''B'' None],
      gc_nodes = Some [node_cfg ''A'' ''start'', node_cfg ''B'' ''llm'', node_cfg ''C'' ''llm'']\<rparr>"

definition diamond_edges :: "edge_config list" where
  "diamond_edges =
     [edge_cfg ''A'' ''B'' (Some ''x''), edge_cfg ''A'' ''C'' (Some ''y''),
      edge_cfg ''B'' ''D'' None, edge_cfg ''C'' ''D'' None]"

definition diamond_nodes :: "node_config list" where
  "diamond_nodes =
     [node_cfg ''A'' ''start'', node_cfg ''B'' ''llm'', node_cfg ''C'' ''llm'',
      node_cfg ''D'' ''end'']"

definition diamond_config :: graph_config where
  "diamond_config = \<lparr>gc_edges = Some diamond_edges, gc_nodes = Some diamond_nodes\<rparr>"

definition cond_edge :: "node_id \<Rightarrow> node_id \<Rightarrow> string \<Rightarrow> graph_edge" where
  "cond_edge s t h =
     \<lparr>source_node_id = s, target_node_id = t,
      run_condition = Some (RunCondition ''branch_identify'' (Some h))\<rparr>"

definition diamond_edge_mapping :: edge_map where
  "diamond_edge_mapping =
     [(''A'', [cond_edge ''A'' ''B'' ''x'', cond_edge ''A'' ''C'' ''y'']),
      (''B'', [ex_edge ''B'' ''D'']), (''C'', [ex_edge ''C'' ''D''])]"

text \<open>The empty dictionaries \<^verbatim>\<open>Graph.init\<close> starts the detection with.\<close>

definition parallels_state0 :: parallels_state where
  "parallels_state0 =
     \<lparr>ps_parallel_mapping = [], ps_node_parallel_mapping = [], ps_uuid_count = 0\<rparr>"

section \<open>The specification's reachable closure\<close>

text \<open>The adjacency as a relation: \<open>n\<close> is related to the targets of the edges stored under \<open>n\<close>.\<close>

definition edge_rel :: "edge_map \<Rightarrow> (node_id \<times> node_id) set" where
  "edge_rel em = {(n, t). t \<in> target_node_id ` set (edges_get em n)}"

text \<open>
  Depth-first traversal with an explicit work list, as the specification's design notes
  ask for: the pending nodes are a stack, a node is appended to the result the first time
  it is taken from the stack, its successors are then pushed in stored edge order, and a
  node met again is dropped.
\<close>

function spec_first_discovery :: "edge_map \<Rightarrow> node_id list \<Rightarrow> node_id list \<Rightarrow> node_id list" where
  "spec_first_discovery em seen [] = seen"
| "spec_first_discovery em seen (n # stack) =
     (if n \<in> set seen then spec_first_discovery em seen stack
      else spec_first_discovery em (seen @ [n])
             (map target_node_id (edges_get em n) @ stack))"
  by pat_completeness auto
termination
proof (relation "inv_image (less_than <*lex*> less_than)
         (\<lambda>(em, seen, stack). (card ((all_targets em \<union> set stack) - set seen), length stack))",
       goal_cases)
  case 1
  show ?case by (intro wf_inv_image wf_lex_prod wf_less_than)
next
  case (2 em seen n stack)
  then have "(all_targets em \<union> set (n # stack)) - set seen
               = (all_targets em \<union> set stack) - set seen"
    by auto
  then show ?case by simp
next
  case (3 em seen n stack)
  have sub: "target_node_id ` set (edges_get em n) \<subseteq> all_targets em"
  proof (cases "map_of em n")
    case None
    then show ?thesis by (simp add: edges_get_def)
  next
    case (Some es')
    then have "(n, es') \<in> set em"
      by (rule map_of_SomeD)
    then have "target_node_id ` set es' \<subseteq> all_targets em"
      by (force simp add: all_targets_def)
    with Some show ?thesis by (simp add: edges_get_def)
  qed
  have "(all_targets em \<union> set (map target_node_id (edges_get em n) @ stack)) - set (seen @ [n])
          \<subset> (all_targets em \<union> set (n # stack)) - set seen"
    using 3 sub by auto
  moreover have "finite ((all_targets em \<union> set (n # stack)) - set seen)"
    by (simp add: all_targets_def)
  ultimately show ?case by (simp add: psubset_card_mono)
qed

section \<open>The specification's scope linkage\<close>

text \<open>
  The parent of a new scope as the specification words it: when every branch root already
  has an entry in the node parallel mapping and all these entries are the same scope, that
  scope; otherwise none.
\<close>

definition spec_parent_parallel_id ::
  "(node_id \<times> parallel_id) list \<Rightarrow> node_id list \<Rightarrow> parallel_id option" where
  "spec_parent_parallel_id npm parallel_node_ids =
     (case parallel_node_ids of
        [] \<Rightarrow> None
      | n # ns \<Rightarrow>
          (case map_of npm n of
             None \<Rightarrow> None
           | Some s \<Rightarrow> if list_all (\<lambda>m. map_of npm m = Some s) ns then Some s else None))"

text \<open>
  Two configurations with conditioned edges only.  In the first, \<open>R\<close> fans out to \<open>A\<close> and
  \<open>B\<close>, \<open>A\<close> to \<open>C\<close> and \<open>D\<close>, and \<open>B\<close> to \<open>C\<close> and \<open>A\<close>.  In the second, \<open>R\<close> fans out to \<open>B\<close>
  and \<open>C\<close>, and \<open>B\<close> to \<open>E\<close> and \<open>F\<close>.
\<close>

definition crossing_edges :: "edge_config list" where
  "crossing_edges =
     [edge_cfg ''R'' ''A'' (Some ''a''), edge_cfg ''R'' ''B'' (Some ''b''),
      edge_cfg ''A'' ''C'' (Some ''c''), edge_cfg ''A'' ''D'' (Some ''d''),
      edge_cfg ''B'' ''C'' (Some ''c''), edge_cfg ''B'' ''A'' (Some ''a'')]"

definition crossing_config :: graph_config where
  "crossing_config =
     \<lparr>gc_edges = Some crossing_edges,
      gc_nodes = Some [node_cfg ''R'' ''start'', node_cfg ''A'' ''llm'', node_cfg ''B'' ''llm'',
                       node_cfg ''C'' ''llm'', node_cfg ''D'' ''llm'']\<rparr>"

definition crossing_edge_mapping :: edge_map where
  "crossing_edge_mapping =
     [(''R'', [cond_edge ''R'' ''A'' ''a'', cond_edge ''R'' ''B'' ''b'']),
      (''A'', [cond_edge ''A'' ''C'' ''c'', cond_edge ''A'' ''D'' ''d'']),
      (''B'', [cond_edge ''B'' ''C'' ''c'', cond_edge ''B'' ''A'' ''a''])]"

definition nested_edges :: "edge_config list" where
  "nested_edges =
     [edge_cfg ''R'' ''B'' (Some ''a''), edge_cfg ''R'' ''C'' (Some ''b''),
      edge_cfg ''B'' ''E'' (Some ''c''), edge_cfg ''B'' ''F'' (Some ''d'')]"

definition nested_config :: graph_config where
  "nested_config =
     \<lparr>gc_edges = Some nested_edges,
      gc_nodes = Some [node_cfg ''R'' ''start'', node_cfg ''B'' ''llm'', node_cfg ''C'' ''llm'',
                       node_cfg ''E'' ''llm'', node_cfg ''F'' ''llm'']\<rparr>"

definition nested_edge_mapping :: edge_map where
  "nested_edge_mapping =
     [(''R'', [cond_edge ''R'' ''B'' ''a'', cond_edge ''R'' ''C'' ''b'']),
      (''B'', [cond_edge ''B'' ''E'' ''c'', cond_edge ''B'' ''F'' ''d''])]"

text \<open>
  The detection state of the first configuration when the walk, having finished with \<open>A\<close>,
  arrives at \<open>B\<close>.
\<close>

definition crossing_state :: parallels_state where
  "crossing_state =
     \<lparr>ps_parallel_mapping =
        [(0, \<lparr>gp_id = 0, parent_parallel_id = None\<rparr>),
         (1, \<lparr>gp_id = 1, parent_parallel_id = None\<rparr>)],
      ps_node_parallel_mapping = [(''A'', 0), (''B'', 0), (''C'', 1), (''D'', 1)],
      ps_uuid_count = 2\<rparr>"

section \<open>The tolerated loop-back pattern\<close>

text \<open>The adjacency \<^verbatim>\<open>Graph.init\<close> builds from a configuration (lines 91--128).\<close>

definition config_edge_mapping :: "graph_config \<Rightarrow> edge_map" where
  "config_edge_mapping cfg =
     fst (init_edges (case gc_edges cfg of None \<Rightarrow> [] | Some cs \<Rightarrow> cs))"

text \<open>
  The part of the adjacency reachable from \<open>r\<close> is acyclic once the edges back into \<open>r\<close>
  are left out.  A reachable graph that is acyclic except for one edge from a leaf to the
  root is of this kind.
\<close>

definition acyclic_but_root :: "edge_map \<Rightarrow> node_id \<Rightarrow> bool" where
  "acyclic_but_root em r =
     acyclic {(a, b). (a, b) \<in> edge_rel em \<and> (r, a) \<in> (edge_rel em)\<^sup>* \<and> b \<noteq> r}"

text \<open>The loop-back pattern itself: \<open>A\<close> to \<open>B\<close>, and the leaf \<open>B\<close> back to the root \<open>A\<close>.\<close>

definition loop_back_edges :: "edge_config list" where
  "loop_back_edges = [edge_cfg ''A'' ''B'' None, edge_cfg ''B'' ''A'' None]"

definition loop_back_config :: graph_config where
  "loop_back_config =
     \<lparr>gc_edges = Some loop_back_edges,
      gc_nodes = Some [node_cfg ''A'' ''start'', node_cfg ''B'' ''llm'']\<rparr>"

section \<open>Properties\<close>

subsection \<open>The frontier of a graph without routes, and the root's route list\<close>

text \<open>
  Claim C7.  With an empty \<open>routes\<close> dictionary \<open>next_node_ids\<close> returns exactly one
  entry: the root node id, with no parallel attached.
\<close>

theorem next_node_ids_no_routes:
  assumes "routes (run_state g) = []"
  shows "next_node_ids check g = Inr [\<lparr>ngn_node_id = root_node_id g, ngn_parallel = None\<rparr>]"
  using assms by (simp add: next_node_ids_def)

theorem next_node_ids_no_routes_witness:
  "next_node_ids no_condition_check (ex_graph [(''A'', [ex_edge ''A'' ''B''])] [''A'', ''B''] [])
     = Inr [\<lparr>ngn_node_id = ''A'', ngn_parallel = None\<rparr>]"
  using next_node_ids_no_routes
    [where g = "ex_graph [(''A'', [ex_edge ''A'' ''B''])] [''A'', ''B''] []"
       and check = no_condition_check]
  by (simp add: ex_graph_def)

lemma map_of_None_keys: "fst ` set xs = fst ` set ys \<Longrightarrow> (map_of xs k = None) = (map_of ys k = None)"
  by (simp add: map_of_eq_None_iff)

lemma lookup_parallel_with_routes [simp]: "lookup_parallel (with_routes g rts) n = lookup_parallel g n"
  by (simp add: lookup_parallel_def with_routes_def split: option.splits)

lemma route_final_graph_edges_with_routes:
  assumes "fst ` set rts = fst ` set (routes (run_state g))"
  shows "route_final_graph_edges (with_routes g rts) rs = route_final_graph_edges g rs"
proof -
  have "(map_of rts k = None) = (map_of (routes (run_state g)) k = None)" for k
    using assms by (rule map_of_None_keys)
  then show ?thesis
    by (simp add: route_final_graph_edges_def with_routes_def)
qed

lemma next_graph_nodes_with_routes:
  assumes "\<And>rc s t. check rc s t (with_routes g rts) = check rc s t g"
  shows "next_graph_nodes check (with_routes g rts) es = next_graph_nodes check g es"
  by (induction es) (simp_all add: assms split: option.splits sum.splits)

text \<open>
  Claim C10.  When \<open>routes\<close> is not empty and has no entry for the root, \<open>next_node_ids\<close>
  fails with the lookup error of \<^verbatim>\<open>routes[root_node_id]\<close>.  Of the route lists it reads
  only the one under the root's key: replacing \<open>routes\<close> by any dictionary with the same
  keys and the same list under the root (the lists under the other keys are arbitrary)
  leaves the result unchanged, for a condition handler that does not tell the two graphs
  apart.
\<close>

theorem next_node_ids_reads_root_routes:
  "(routes (run_state g) \<noteq> [] \<and> map_of (routes (run_state g)) (root_node_id g) = None
      \<longrightarrow> next_node_ids check g = Inl (KeyError_routes (root_node_id g)))
   \<and> (fst ` set rts = fst ` set (routes (run_state g))
        \<and> map_of rts (root_node_id g) = map_of (routes (run_state g)) (root_node_id g)
        \<and> (\<forall>rc s t. check rc s t (with_routes g rts) = check rc s t g)
      \<longrightarrow> next_node_ids check (with_routes g rts) = next_node_ids check g)"
proof (intro conjI impI)
  assume "routes (run_state g) \<noteq> [] \<and> map_of (routes (run_state g)) (root_node_id g) = None"
  then show "next_node_ids check g = Inl (KeyError_routes (root_node_id g))"
    by (simp add: next_node_ids_def)
next
  assume a: "fst ` set rts = fst ` set (routes (run_state g))
        \<and> map_of rts (root_node_id g) = map_of (routes (run_state g)) (root_node_id g)
        \<and> (\<forall>rc s t. check rc s t (with_routes g rts) = check rc s t g)"
  then have keys: "fst ` set rts = fst ` set (routes (run_state g))"
    and root: "map_of rts (root_node_id g) = map_of (routes (run_state g)) (root_node_id g)"
    and chk: "\<And>rc s t. check rc s t (with_routes g rts) = check rc s t g"
    by simp_all
  have empty: "(rts = []) = (routes (run_state g) = [])"
    using keys by (cases rts; cases "routes (run_state g)") auto
  have sel: "routes (run_state (with_routes g rts)) = rts"
    "root_node_id (with_routes g rts) = root_node_id g"
    by (simp_all add: with_routes_def)
  show "next_node_ids check (with_routes g rts) = next_node_ids check g"
    using empty root
    by (simp add: next_node_ids_def sel next_graph_nodes_with_routes [OF chk]
          route_final_graph_edges_with_routes [OF keys] split: option.splits)
qed

theorem next_node_ids_reads_root_routes_witness:
  "next_node_ids no_condition_check
      (ex_graph [(''A'', [ex_edge ''A'' ''B''])] [''A'', ''B'']
         [(''B'', [\<lparr>route_id = ''r1'', route_node_id = ''B''\<rparr>])])
     = Inl (KeyError_routes ''A'')
   \<and> next_node_ids no_condition_check
        (with_routes
           (ex_graph [(''A'', [ex_edge ''A'' ''B''])] [''A'', ''B'']
              [(''A'', [\<lparr>route_id = ''r0'', route_node_id = ''A''\<rparr>]), (''C'', [])])
           [(''A'', [\<lparr>route_id = ''r0'', route_node_id = ''A''\<rparr>]),
            (''C'', [\<lparr>route_id = ''r2'', route_node_id = ''C''\<rparr>])])
     = next_node_ids no_condition_check
         (ex_graph [(''A'', [ex_edge ''A'' ''B''])] [''A'', ''B'']
            [(''A'', [\<lparr>route_id = ''r0'', route_node_id = ''A''\<rparr>]), (''C'', [])])"
proof
  show "next_node_ids no_condition_check
      (ex_graph [(''A'', [ex_edge ''A'' ''B''])] [''A'', ''B'']
         [(''B'', [\<lparr>route_id = ''r1'', route_node_id = ''B''\<rparr>])])
     = Inl (KeyError_routes ''A'')"
    using next_node_ids_reads_root_routes
      [where g = "ex_graph [(''A'', [ex_edge ''A'' ''B''])] [''A'', ''B'']
         [(''B'', [\<lparr>route_id = ''r1'', route_node_id = ''B''\<rparr>])]"
         and check = no_condition_check and rts = "[]"]
    by (simp add: ex_graph_def)
next
  show "next_node_ids no_condition_check
        (with_routes
           (ex_graph [(''A'', [ex_edge ''A'' ''B''])] [''A'', ''B'']
              [(''A'', [\<lparr>route_id = ''r0'', route_node_id = ''A''\<rparr>]), (''C'', [])])
           [(''A'', [\<lparr>route_id = ''r0'', route_node_id = ''A''\<rparr>]),
            (''C'', [\<lparr>route_id = ''r2'', route_node_id = ''C''\<rparr>])])
     = next_node_ids no_condition_check
         (ex_graph [(''A'', [ex_edge ''A'' ''B''])] [''A'', ''B'']
            [(''A'', [\<lparr>route_id = ''r0'', route_node_id = ''A''\<rparr>]), (''C'', [])])"
    using next_node_ids_reads_root_routes
      [where rts = "[(''A'', [\<lparr>route_id = ''r0'', route_node_id = ''A''\<rparr>]),
            (''C'', [\<lparr>route_id = ''r2'', route_node_id = ''C''\<rparr>])]"
         and g = "ex_graph [(''A'', [ex_edge ''A'' ''B''])] [''A'', ''B'']
            [(''A'', [\<lparr>route_id = ''r0'', route_node_id = ''A''\<rparr>]), (''C'', [])]"
         and check = no_condition_check]
    by (simp add: ex_graph_def no_condition_check_def)
qed

subsection \<open>Dynamic edge insertion\<close>

lemma setdefault_empty_get: "edges_get (setdefault_empty s em) s = edges_get em s"
  by (simp add: setdefault_empty_def edges_get_def update_conv' split: option.splits)

lemma setdefault_empty_same: "edges_get em s \<noteq> [] \<Longrightarrow> setdefault_empty s em = em"
  by (simp add: setdefault_empty_def edges_get_def split: option.splits)

lemma update_setdefault_empty: "AList.update s v (setdefault_empty s em) = AList.update s v em"
  by (simp add: setdefault_empty_def split: option.splits)

lemma add_extra_edge_eq:
  "add_extra_edge g s t c =
     (if s \<notin> set (node_ids g) \<or> t \<notin> set (node_ids g)
         \<or> t \<in> target_node_id ` set (edges_get (edge_mapping g) s)
      then g
      else g\<lparr>edge_mapping :=
               AList.update s
                 (edges_get (edge_mapping g) s
                    @ [\<lparr>source_node_id = s, target_node_id = t, run_condition = c\<rparr>])
                 (edge_mapping g)\<rparr>)"
proof -
  have "setdefault_empty s (edge_mapping g) = edge_mapping g"
    if "t \<in> target_node_id ` set (edges_get (edge_mapping g) s)"
    using that by (intro setdefault_empty_same) auto
  then show ?thesis
    by (auto simp add: add_extra_edge_def Let_def setdefault_empty_get update_setdefault_empty)
qed

text \<open>
  Claim C8.  \<open>add_extra_edge\<close> is a total function on graphs (no branch of it fails).
  When the source or the target is not in \<open>node_ids\<close>, or the list stored under the source
  already holds an edge to the target (whatever its condition and the new one), the graph
  is returned as it was.  Otherwise only \<open>edge_mapping\<close> changes: the list under the source
  is the old one (empty when the key was absent) with the one new edge appended, every
  other key keeps its list, and the keys keep their order (a new key goes last).
\<close>

theorem add_extra_edge_effect:
  "(s \<notin> set (node_ids g) \<or> t \<notin> set (node_ids g)
      \<or> t \<in> target_node_id ` set (edges_get (edge_mapping g) s)
     \<longrightarrow> add_extra_edge g s t c = g)
   \<and> (\<not> (s \<notin> set (node_ids g) \<or> t \<notin> set (node_ids g)
           \<or> t \<in> target_node_id ` set (edges_get (edge_mapping g) s))
     \<longrightarrow> add_extra_edge g s t c = g\<lparr>edge_mapping := edge_mapping (add_extra_edge g s t c)\<rparr>
       \<and> edges_get (edge_mapping (add_extra_edge g s t c)) s
           = edges_get (edge_mapping g) s
               @ [\<lparr>source_node_id = s, target_node_id = t, run_condition = c\<rparr>]
       \<and> (\<forall>k. k \<noteq> s \<longrightarrow>
             map_of (edge_mapping (add_extra_edge g s t c)) k = map_of (edge_mapping g) k)
       \<and> map fst (edge_mapping (add_extra_edge g s t c))
           = (if s \<in> set (map fst (edge_mapping g)) then map fst (edge_mapping g)
              else map fst (edge_mapping g) @ [s]))"
  by (simp add: add_extra_edge_eq edges_get_def update_conv' update_keys)

theorem add_extra_edge_effect_witness:
  "add_extra_edge (ex_graph [(''A'', [ex_edge ''A'' ''B''])] [''A'', ''B'', ''C''] []) ''A'' ''Z'' None
     = ex_graph [(''A'', [ex_edge ''A'' ''B''])] [''A'', ''B'', ''C''] []
   \<and> add_extra_edge (ex_graph [(''A'', [ex_edge ''A'' ''B''])] [''A'', ''B'', ''C''] []) ''A'' ''B''
        (Some (RunCondition ''branch_identify'' (Some ''x'')))
     = ex_graph [(''A'', [ex_edge ''A'' ''B''])] [''A'', ''B'', ''C''] []
   \<and> edges_get
        (edge_mapping
           (add_extra_edge (ex_graph [(''A'', [ex_edge ''A'' ''B''])] [''A'', ''B'', ''C''] [])
              ''B'' ''C'' None)) ''B''
     = [ex_edge ''B'' ''C'']"
proof (intro conjI)
  show "add_extra_edge (ex_graph [(''A'', [ex_edge ''A'' ''B''])] [''A'', ''B'', ''C''] []) ''A'' ''Z'' None
     = ex_graph [(''A'', [ex_edge ''A'' ''B''])] [''A'', ''B'', ''C''] []"
    using add_extra_edge_effect
      [where g = "ex_graph [(''A'', [ex_edge ''A'' ''B''])] [''A'', ''B'', ''C''] []"
         and s = "''A''" and t = "''Z''" and c = None]
    by (simp add: ex_graph_def)
  show "add_extra_edge (ex_graph [(''A'', [ex_edge ''A'' ''B''])] [''A'', ''B'', ''C''] []) ''A'' ''B''
        (Some (RunCondition ''branch_identify'' (Some ''x'')))
     = ex_graph [(''A'', [ex_edge ''A'' ''B''])] [''A'', ''B'', ''C''] []"
    using add_extra_edge_effect
      [where g = "ex_graph [(''A'', [ex_edge ''A'' ''B''])] [''A'', ''B'', ''C''] []"
         and s = "''A''" and t = "''B''"
         and c = "Some (RunCondition ''branch_identify'' (Some ''x''))"]
    by (simp add: ex_graph_def edges_get_def ex_edge_def)
  show "edges_get
        (edge_mapping
           (add_extra_edge (ex_graph [(''A'', [ex_edge ''A'' ''B''])] [''A'', ''B'', ''C''] [])
              ''B'' ''C'' None)) ''B''
     = [ex_edge ''B'' ''C'']"
    using add_extra_edge_effect
      [where g = "ex_graph [(''A'', [ex_edge ''A'' ''B''])] [''A'', ''B'', ''C''] []"
         and s = "''B''" and t = "''C''" and c = None]
    by (simp add: ex_graph_def edges_get_def ex_edge_def)
qed

subsection \<open>Leaf detection\<close>

text \<open>
  On a graph whose mapping stores no empty edge list, \<open>get_leaf_node_ids\<close> is the
  specification's leaf list.
\<close>

lemma get_leaf_node_ids_spec:
  assumes "\<forall>n es. map_of (edge_mapping g) n = Some es \<longrightarrow> es \<noteq> []"
  shows "get_leaf_node_ids g = spec_leaf_node_ids g"
proof -
  have "is_leaf_entry g n = spec_is_leaf g n" for n
  proof (cases "map_of (edge_mapping g) n")
    case None
    then show ?thesis by (simp add: is_leaf_entry_def spec_is_leaf_def edges_get_def)
  next
    case (Some es)
    with assms have "es \<noteq> []" by blast
    with Some show ?thesis
      by (cases es; cases "tl es")
         (auto simp add: is_leaf_entry_def spec_is_leaf_def edges_get_def)
  qed
  then have "is_leaf_entry g = spec_is_leaf g" by (intro ext)
  then show ?thesis by (simp add: get_leaf_node_ids_def spec_leaf_node_ids_def)
qed

text \<open>
  Claim C9, at the graph with the single node \<open>A\<close> (the root) whose entry in
  \<open>edge_mapping\<close> is the empty list: \<open>A\<close> has no outgoing edge, and \<open>get_leaf_node_ids\<close>
  does not return it.
\<close>

theorem get_leaf_node_ids_empty_entry:
  "get_leaf_node_ids (ex_graph [(''A'', [])] [''A''] []) = []
   \<and> edges_get (edge_mapping (ex_graph [(''A'', [])] [''A''] [])) ''A'' = []
   \<and> spec_leaf_node_ids (ex_graph [(''A'', [])] [''A''] []) = [''A'']"
  by (simp add: get_leaf_node_ids_def is_leaf_entry_def spec_leaf_node_ids_def spec_is_leaf_def
        ex_graph_def edges_get_def)

subsection \<open>The depth bound of the unguarded walk\<close>

text \<open>A walk that returns within some depth returns the same state within any larger one.\<close>

lemma recursively_add_parallels_Suc:
  "recursively_add_parallels k em n st = Some r \<Longrightarrow>
     recursively_add_parallels (Suc k) em n st = Some r"
  "recursively_add_parallels_loop k em es st = Some r \<Longrightarrow>
     recursively_add_parallels_loop (Suc k) em es st = Some r"
proof (induction k em n st and k em es st arbitrary: r and r
        rule: recursively_add_parallels_recursively_add_parallels_loop.induct)
  case (1 em start_node_id st)
  then show ?case by simp
next
  case (2 depth em start_node_id st)
  then show ?case by (simp add: Let_def)
next
  case (3 depth em st)
  then show ?case by simp
next
  case (4 depth em e es st)
  then show ?case by (auto split: option.splits)
qed

lemma recursively_add_parallels_mono:
  assumes "recursively_add_parallels k em n st = Some r" "k \<le> k'"
  shows "recursively_add_parallels k' em n st = Some r"
  using assms(2)
proof (induction rule: dec_induct)
  case base
  show ?case by (rule assms(1))
next
  case (step m)
  then show ?case by (intro recursively_add_parallels_Suc(1))
qed

lemma init_mono:
  assumes "init k cfg vpool root_id = Some r" "k \<le> k'"
  shows "init k' cfg vpool root_id = Some r"
  using assms
  by (auto simp add: init_def Let_def split: option.splits if_splits
        dest: recursively_add_parallels_mono)

text \<open>What \<open>init\<close> returns for an explicit root that passes the checks.\<close>

lemma init_with_root:
  assumes "gc_edges cfg = Some es" "gc_nodes cfg = Some ns" "ns \<noteq> []" "r \<noteq> []"
    and "Some r \<in> set (map nc_id (fetch_root_node_configs ns (snd (init_edges es))))"
    and "recursively_add_parallels depth (fst (init_edges es)) r parallels_state0 = Some st"
  shows "init depth cfg vpool (Some r) =
     Some (Inr \<lparr>root_node_id = r,
            node_ids = recursively_add_node_ids (fst (init_edges es)) [r] r,
            edge_mapping = fst (init_edges es),
            parallel_mapping = ps_parallel_mapping st,
            node_parallel_mapping = ps_node_parallel_mapping st,
            run_state = \<lparr>routes = [], variable_pool = vpool, node_route_results = []\<rparr>\<rparr>)"
  using assms
  by (simp add: init_def Let_def fetch_root_node_def check_root_node_def falsy_def
        parallels_state0_def)

subsection \<open>Root resolution\<close>

text \<open>Without a root id the candidate found is a configuration, which line 155 rejects.\<close>

lemma init_no_root_id:
  assumes "falsy root_id"
  shows "init depth cfg vpool root_id = Some (Inl GraphMustHaveNode)
         \<or> init depth cfg vpool root_id = Some (Inl RootNodeNotFound)"
  using assms
  by (simp add: init_def Let_def fetch_root_node_def check_root_node_def
        split: option.splits list.splits)

text \<open>
  Claim C1.  Without an explicit root id (\<^verbatim>\<open>None\<close> or the empty string) \<open>init\<close> never
  returns a graph: line 152 binds \<^verbatim>\<open>root_node_id\<close> to the start node's configuration,
  not to its id, and line 155 does not find that dictionary among the candidate ids.  So
  for the nodes \<open>A\<close> (start), \<open>B\<close>, \<open>C\<close> with the single edge from \<open>A\<close> to \<open>B\<close> the result is the
  \<^verbatim>\<open>ValueError\<close> of line 156 and not a graph rooted at \<open>A\<close>.
\<close>

theorem init_without_root_id_fails:
  assumes "falsy root_id"
  shows "init depth cfg vpool root_id = Some (Inl GraphMustHaveNode)
         \<or> init depth cfg vpool root_id = Some (Inl RootNodeNotFound)"
  using assms by (rule init_no_root_id)

theorem init_without_root_id_fails_witness:
  "init 3 start_config () None = (Some (Inl RootNodeNotFound) :: (error + unit graph) option)"
proof -
  have "init 3 start_config () None = (Some (Inl GraphMustHaveNode) :: (error + unit graph) option)
         \<or> init 3 start_config () None = (Some (Inl RootNodeNotFound) :: (error + unit graph) option)"
    by (rule init_without_root_id_fails) (simp add: falsy_def)
  moreover have "init 3 start_config () None \<noteq> (Some (Inl GraphMustHaveNode) :: (error + unit graph) option)"
    by (simp add: init_def start_config_def Let_def split: option.splits)
  ultimately show ?thesis by simp
qed

subsection \<open>The diamond with two conditioned branches\<close>

lemma diamond_init_edges:
  "fst (init_edges diamond_edges) = diamond_edge_mapping"
  by code_simp

lemma diamond_roots:
  "map nc_id (fetch_root_node_configs diamond_nodes (snd (init_edges diamond_edges))) = [Some ''A'']"
  by code_simp

lemma diamond_node_ids:
  "recursively_add_node_ids diamond_edge_mapping [''A''] ''A'' = [''A'', ''B'', ''D'', ''C'']"
  by code_simp

lemma diamond_parallels:
  "recursively_add_parallels 3 diamond_edge_mapping ''A'' parallels_state0 =
     Some \<lparr>ps_parallel_mapping = [(0, \<lparr>gp_id = 0, parent_parallel_id = None\<rparr>)],
           ps_node_parallel_mapping = [(''B'', 0), (''C'', 0)], ps_uuid_count = 1\<rparr>"
  by code_simp

lemma diamond_eval:
  "init 3 diamond_config vpool (Some ''A'') =
     Some (Inr \<lparr>root_node_id = ''A'', node_ids = [''A'', ''B'', ''D'', ''C''],
            edge_mapping = diamond_edge_mapping,
            parallel_mapping = [(0, \<lparr>gp_id = 0, parent_parallel_id = None\<rparr>)],
            node_parallel_mapping = [(''B'', 0), (''C'', 0)],
            run_state = \<lparr>routes = [], variable_pool = vpool, node_route_results = []\<rparr>\<rparr>)"
proof -
  have "init 3 diamond_config vpool (Some ''A'') =
     Some (Inr \<lparr>root_node_id = ''A'',
            node_ids = recursively_add_node_ids (fst (init_edges diamond_edges)) [''A''] ''A'',
            edge_mapping = fst (init_edges diamond_edges),
            parallel_mapping =
              ps_parallel_mapping
                \<lparr>ps_parallel_mapping = [(0, \<lparr>gp_id = 0, parent_parallel_id = None\<rparr>)],
                 ps_node_parallel_mapping = [(''B'', 0), (''C'', 0)], ps_uuid_count = 1\<rparr>,
            node_parallel_mapping =
              ps_node_parallel_mapping
                \<lparr>ps_parallel_mapping = [(0, \<lparr>gp_id = 0, parent_parallel_id = None\<rparr>)],
                 ps_node_parallel_mapping = [(''B'', 0), (''C'', 0)], ps_uuid_count = 1\<rparr>,
            run_state = \<lparr>routes = [], variable_pool = vpool, node_route_results = []\<rparr>\<rparr>)"
  proof (rule init_with_root)
    show "gc_edges diamond_config = Some diamond_edges" "gc_nodes diamond_config = Some diamond_nodes"
      by (simp_all add: diamond_config_def)
    show "diamond_nodes \<noteq> []" by (simp add: diamond_nodes_def)
    show "''A'' \<noteq> []" by simp
    show "Some ''A'' \<in> set (map nc_id (fetch_root_node_configs diamond_nodes (snd (init_edges diamond_edges))))"
      unfolding diamond_roots by simp
    show "recursively_add_parallels 3 (fst (init_edges diamond_edges)) ''A'' parallels_state0 =
       Some \<lparr>ps_parallel_mapping = [(0, \<lparr>gp_id = 0, parent_parallel_id = None\<rparr>)],
           ps_node_parallel_mapping = [(''B'', 0), (''C'', 0)], ps_uuid_count = 1\<rparr>"
      unfolding diamond_init_edges by (rule diamond_parallels)
  qed
  then show ?thesis
    by (simp add: diamond_init_edges diamond_node_ids)
qed

text \<open>
  The detection at the fan-out \<open>A\<close>, step by step: the branch roots, their forward
  closures, the merge candidates, the merge node assigned to each branch root, and the
  nodes each branch owns.
\<close>

lemma diamond_parallel_node_ids:
  "fetch_parallel_node_ids (edges_get diamond_edge_mapping ''A'') = [''B'', ''C'']"
  by code_simp

lemma diamond_routes_node_ids:
  "fetch_routes_node_ids diamond_edge_mapping [''B'', ''C''] = [(''B'', [''D'']), (''C'', [''D''])]"
  by code_simp

lemma diamond_merge_branch_node_ids:
  "sort_merge_branch_node_ids (fetch_merge_branch_node_ids [(''B'', [''D'']), (''C'', [''D''])])
     = [(''D'', [''C'', ''B''])]"
  by code_simp

lemma diamond_branches_merge_node_ids:
  "assign_branches_merge_node_ids [(''D'', [''C'', ''B''])] = [(''C'', ''D''), (''B'', ''D'')]"
  by code_simp

lemma diamond_in_branch_node_ids:
  "fetch_all_node_ids_in_parallels diamond_edge_mapping [''B'', ''C'']
     = [(''B'', [''B'']), (''C'', [''C''])]"
  by code_simp

text \<open>
  Claim C5.  For the edges \<open>A\<close> to \<open>B\<close> (selector \<open>x\<close>), \<open>A\<close> to \<open>C\<close> (selector \<open>y\<close>),
  \<open>B\<close> to \<open>D\<close> and \<open>C\<close> to \<open>D\<close>, with root \<open>A\<close>, \<open>init\<close> returns a graph (for every depth
  bound of at least 3, the depth of this graph) with exactly one parallel; the node
  parallel mapping has exactly the keys \<open>B\<close> and \<open>C\<close>, both mapped to it, and no entry for
  \<open>D\<close>.  On the adjacency of that graph the branch roots of the fan-out at \<open>A\<close> are \<open>B\<close> and
  \<open>C\<close>, both closures are \<open>D\<close>, which therefore is the one merge candidate and the merge
  node assigned to both branch roots, and the bounded walk leaves each branch with its
  root alone: \<open>D\<close> is in neither branch.
\<close>

theorem init_diamond_one_parallel:
  assumes "3 \<le> depth"
  shows "\<exists>g :: 'v graph. init depth diamond_config vpool (Some ''A'') = Some (Inr g)
           \<and> root_node_id g = ''A''
           \<and> parallel_mapping g = [(0, \<lparr>gp_id = 0, parent_parallel_id = None\<rparr>)]
           \<and> node_parallel_mapping g = [(''B'', 0), (''C'', 0)]
           \<and> map_of (node_parallel_mapping g) ''D'' = None
           \<and> fetch_parallel_node_ids (edges_get (edge_mapping g) ''A'') = [''B'', ''C'']
           \<and> fetch_routes_node_ids (edge_mapping g) [''B'', ''C'']
               = [(''B'', [''D'']), (''C'', [''D''])]
           \<and> sort_merge_branch_node_ids
                (fetch_merge_branch_node_ids (fetch_routes_node_ids (edge_mapping g) [''B'', ''C'']))
               = [(''D'', [''C'', ''B''])]
           \<and> assign_branches_merge_node_ids
                (sort_merge_branch_node_ids
                   (fetch_merge_branch_node_ids
                      (fetch_routes_node_ids (edge_mapping g) [''B'', ''C''])))
               = [(''C'', ''D''), (''B'', ''D'')]
           \<and> fetch_all_node_ids_in_parallels (edge_mapping g) [''B'', ''C'']
               = [(''B'', [''B'']), (''C'', [''C''])]"
proof -
  have "init depth diamond_config vpool (Some ''A'') =
     Some (Inr \<lparr>root_node_id = ''A'', node_ids = [''A'', ''B'', ''D'', ''C''],
            edge_mapping = diamond_edge_mapping,
            parallel_mapping = [(0, \<lparr>gp_id = 0, parent_parallel_id = None\<rparr>)],
            node_parallel_mapping = [(''B'', 0), (''C'', 0)],
            run_state = \<lparr>routes = [], variable_pool = vpool,
                         node_route_results = []\<rparr>\<rparr>)"
    using diamond_eval assms by (rule init_mono)
  then show ?thesis
    by (simp add: diamond_parallel_node_ids diamond_routes_node_ids
          diamond_merge_branch_node_ids diamond_branches_merge_node_ids
          diamond_in_branch_node_ids)
qed

theorem init_diamond_one_parallel_witness:
  "\<exists>g :: unit graph. init 4 diamond_config () (Some ''A'') = Some (Inr g)
           \<and> root_node_id g = ''A''
           \<and> parallel_mapping g = [(0, \<lparr>gp_id = 0, parent_parallel_id = None\<rparr>)]
           \<and> node_parallel_mapping g = [(''B'', 0), (''C'', 0)]
           \<and> map_of (node_parallel_mapping g) ''D'' = None
           \<and> fetch_parallel_node_ids (edges_get (edge_mapping g) ''A'') = [''B'', ''C'']
           \<and> fetch_routes_node_ids (edge_mapping g) [''B'', ''C'']
               = [(''B'', [''D'']), (''C'', [''D''])]
           \<and> sort_merge_branch_node_ids
                (fetch_merge_branch_node_ids (fetch_routes_node_ids (edge_mapping g) [''B'', ''C'']))
               = [(''D'', [''C'', ''B''])]
           \<and> assign_branches_merge_node_ids
                (sort_merge_branch_node_ids
                   (fetch_merge_branch_node_ids
                      (fetch_routes_node_ids (edge_mapping g) [''B'', ''C''])))
               = [(''C'', ''D''), (''B'', ''D'')]
           \<and> fetch_all_node_ids_in_parallels (edge_mapping g) [''B'', ''C'']
               = [(''B'', [''B'']), (''C'', [''C''])]"
  by (rule init_diamond_one_parallel) simp

subsection \<open>An edge entry without a target\<close>

text \<open>
  Claim C4, at the configuration with the node \<open>A\<close> and the single edge entry that has the
  source \<open>A\<close> and no target: line 106 has created the key \<open>A\<close> before line 109 skips the
  entry, so the graph \<open>init\<close> returns has the key \<open>A\<close> in \<open>edge_mapping\<close>, with an empty
  list.
\<close>

theorem init_dangling_edge_entry:
  assumes "1 \<le> depth"
  shows "\<exists>g :: 'v graph. init depth dangling_edge_config vpool (Some ''A'') = Some (Inr g)
           \<and> edge_mapping g = [(''A'', [])]
           \<and> node_ids g = [''A'']"
proof -
  have "init 1 dangling_edge_config vpool (Some ''A'') =
     Some (Inr \<lparr>root_node_id = ''A'', node_ids = [''A''], edge_mapping = [(''A'', [])],
            parallel_mapping = [], node_parallel_mapping = [],
            run_state = \<lparr>routes = [], variable_pool = vpool,
                         node_route_results = []\<rparr>\<rparr>)"
    by (simp add: init_def dangling_edge_config_def init_edges_def init_edge_def
          setdefault_empty_def fetch_root_node_configs_def fetch_root_node_def falsy_def
          check_root_node_def recursively_add_node_ids_def edges_get_def add_parallel_at_def)
  then have "init depth dangling_edge_config vpool (Some ''A'') =
     Some (Inr \<lparr>root_node_id = ''A'', node_ids = [''A''], edge_mapping = [(''A'', [])],
            parallel_mapping = [], node_parallel_mapping = [],
            run_state = \<lparr>routes = [], variable_pool = vpool,
                         node_route_results = []\<rparr>\<rparr>)"
    using assms by (rule init_mono)
  then show ?thesis by simp
qed

theorem init_dangling_edge_entry_witness:
  "\<exists>g :: unit graph. init 1 dangling_edge_config () (Some ''A'') = Some (Inr g)
           \<and> edge_mapping g = [(''A'', [])]
           \<and> node_ids g = [''A'']"
  by (rule init_dangling_edge_entry) simp

subsection \<open>The reachable closure\<close>

text \<open>
  The guarded walk of \<open>recursively_add_node_ids\<close> computes the specification's traversal:
  the nested call is the work list with the successors pushed in front.
\<close>

lemma spec_first_discovery_append:
  "spec_first_discovery em seen (xs @ ys)
     = spec_first_discovery em (spec_first_discovery em seen xs) ys"
  by (induction em seen xs rule: spec_first_discovery.induct) simp_all

lemma recursively_add_node_ids_loop_spec:
  "recursively_add_node_ids_loop em ids es
     = spec_first_discovery em ids (map target_node_id es)"
proof (induction em ids es rule: recursively_add_node_ids_loop.induct)
  case (1 em ids)
  show ?case by simp
next
  case (2 em ids e es)
  show ?case
  proof (cases "target_node_id e \<in> set ids")
    case True
    with 2 show ?thesis by simp
  next
    case False
    with 2 show ?thesis
      by (simp add: spec_first_discovery_append)
  qed
qed

lemma recursively_add_node_ids_spec:
  "recursively_add_node_ids em [r] r = spec_first_discovery em [] [r]"
  by (simp add: recursively_add_node_ids_def recursively_add_node_ids_loop_spec)

lemma spec_first_discovery_distinct:
  "distinct seen \<Longrightarrow> distinct (spec_first_discovery em seen stack)"
  by (induction em seen stack rule: spec_first_discovery.induct) simp_all

lemma spec_first_discovery_seen: "set seen \<subseteq> set (spec_first_discovery em seen stack)"
  by (induction em seen stack rule: spec_first_discovery.induct) auto

lemma spec_first_discovery_stack: "set stack \<subseteq> set (spec_first_discovery em seen stack)"
proof (induction em seen stack rule: spec_first_discovery.induct)
  case (1 em seen)
  show ?case by simp
next
  case (2 em seen n stack)
  show ?case
  proof (cases "n \<in> set seen")
    case True
    with 2 spec_first_discovery_seen [of seen em stack] show ?thesis by auto
  next
    case False
    with 2 spec_first_discovery_seen
             [of "seen @ [n]" em "map target_node_id (edges_get em n) @ stack"]
    show ?thesis by auto
  qed
qed

lemma spec_first_discovery_closed:
  assumes "edge_rel em `` set seen \<subseteq> set seen \<union> set stack"
  shows "edge_rel em `` set (spec_first_discovery em seen stack)
           \<subseteq> set (spec_first_discovery em seen stack)"
  using assms
proof (induction em seen stack rule: spec_first_discovery.induct)
  case (1 em seen)
  then show ?case by simp
next
  case (2 em seen n stack)
  show ?case
  proof (cases "n \<in> set seen")
    case True
    with 2 show ?thesis by auto
  next
    case False
    have "edge_rel em `` set (seen @ [n])
            \<subseteq> set (seen @ [n]) \<union> set (map target_node_id (edges_get em n) @ stack)"
      using "2.prems" by (auto simp add: edge_rel_def)
    with 2 False show ?thesis by simp
  qed
qed

lemma spec_first_discovery_reachable:
  "set (spec_first_discovery em seen stack) \<subseteq> set seen \<union> (edge_rel em)\<^sup>* `` set stack"
proof (induction em seen stack rule: spec_first_discovery.induct)
  case (1 em seen)
  show ?case by simp
next
  case (2 em seen n stack)
  show ?case
  proof (cases "n \<in> set seen")
    case True
    with 2 show ?thesis by auto
  next
    case False
    have "(edge_rel em)\<^sup>* `` set (map target_node_id (edges_get em n) @ stack)
            \<subseteq> (edge_rel em)\<^sup>* `` set (n # stack)"
    proof
      fix x
      assume "x \<in> (edge_rel em)\<^sup>* `` set (map target_node_id (edges_get em n) @ stack)"
      then obtain y where y: "(y, x) \<in> (edge_rel em)\<^sup>*"
        "y \<in> target_node_id ` set (edges_get em n) \<or> y \<in> set stack"
        by auto
      from y(2) show "x \<in> (edge_rel em)\<^sup>* `` set (n # stack)"
      proof
        assume "y \<in> target_node_id ` set (edges_get em n)"
        then have "(n, y) \<in> edge_rel em" by (simp add: edge_rel_def)
        from this y(1) have "(n, x) \<in> (edge_rel em)\<^sup>*" by (rule converse_rtrancl_into_rtrancl)
        then show ?thesis by auto
      next
        assume "y \<in> set stack"
        with y(1) show ?thesis by auto
      qed
    qed
    with 2 False show ?thesis by auto
  qed
qed

lemma spec_first_discovery_set:
  "set (spec_first_discovery em [] [r]) = (edge_rel em)\<^sup>* `` {r}"
proof
  show "set (spec_first_discovery em [] [r]) \<subseteq> (edge_rel em)\<^sup>* `` {r}"
    using spec_first_discovery_reachable [of em "[]" "[r]"] by simp
next
  let ?S = "set (spec_first_discovery em [] [r])"
  have r: "r \<in> ?S"
    using spec_first_discovery_stack [of "[r]" em "[]"] by simp
  have closed: "edge_rel em `` ?S \<subseteq> ?S"
    by (rule spec_first_discovery_closed) simp
  show "(edge_rel em)\<^sup>* `` {r} \<subseteq> ?S"
  proof
    fix x
    assume "x \<in> (edge_rel em)\<^sup>* `` {r}"
    then have "(r, x) \<in> (edge_rel em)\<^sup>*" by simp
    then show "x \<in> ?S"
      using r closed by (induction rule: rtrancl_induct) auto
  qed
qed

lemma init_Some_Inr:
  assumes "init depth cfg vpool root_id = Some (Inr g)"
  shows "node_ids g = recursively_add_node_ids (edge_mapping g) [root_node_id g] (root_node_id g)"
  using assms
  by (auto simp add: init_def Let_def split: option.splits if_splits)

text \<open>
  Claim C6.  Whenever \<open>init\<close> returns a graph, its \<open>node_ids\<close> has no duplicates, holds
  exactly the nodes reachable from the root along \<open>edge_mapping\<close> (the root included), and
  lists them in the order of first discovery of the depth-first traversal that follows
  each edge list in stored order.
\<close>

theorem init_node_ids_closure:
  assumes "init depth cfg vpool root_id = Some (Inr g)"
  shows "distinct (node_ids g)
         \<and> set (node_ids g) = (edge_rel (edge_mapping g))\<^sup>* `` {root_node_id g}
         \<and> node_ids g = spec_first_discovery (edge_mapping g) [] [root_node_id g]"
proof -
  have eq: "node_ids g = spec_first_discovery (edge_mapping g) [] [root_node_id g]"
    using init_Some_Inr [OF assms] by (simp only: recursively_add_node_ids_spec)
  have "distinct (spec_first_discovery (edge_mapping g) [] [root_node_id g])"
    by (rule spec_first_discovery_distinct) simp
  with eq show ?thesis
    by (simp only: spec_first_discovery_set simp_thms)
qed

theorem init_node_ids_closure_witness:
  "distinct [''A'', ''B'', ''D'', ''C'']
   \<and> set [''A'', ''B'', ''D'', ''C''] = (edge_rel diamond_edge_mapping)\<^sup>* `` {''A''}
   \<and> [''A'', ''B'', ''D'', ''C''] = spec_first_discovery diamond_edge_mapping [] [''A'']"
  by (rule init_node_ids_closure
             [OF diamond_eval [where vpool = "()"], unfolded graph.select_convs])

subsection \<open>Scope linkage\<close>

lemma add_parallel_at_fan_out:
  assumes "1 < length es" and "fetch_parallel_node_ids es \<noteq> []"
  shows "ps_parallel_mapping (add_parallel_at em es st) =
           AList.update (ps_uuid_count st)
             \<lparr>gp_id = ps_uuid_count st,
              parent_parallel_id =
                fetch_parent_parallel_id (ps_node_parallel_mapping st) (fetch_parallel_node_ids es)\<rparr>
             (ps_parallel_mapping st)"
  using assms by (simp add: add_parallel_at_def Let_def)

text \<open>
  Claim C2, as the code has it.  At a fan-out (more than one outgoing edge, at least one of
  them conditioned) a scope with a fresh id is created.  Its parent is set exactly when
  every branch root already has an entry in the node parallel mapping, and it is then the
  scope recorded for the first branch root in edge order: the common scope when all the
  entries agree.  When some branch root has no entry, the new scope has no parent.
\<close>

theorem add_parallel_at_parent:
  assumes "1 < length es" and "fetch_parallel_node_ids es \<noteq> []"
  shows "\<exists>p. map_of (ps_parallel_mapping (add_parallel_at em es st)) (ps_uuid_count st) = Some p
           \<and> gp_id p = ps_uuid_count st
           \<and> ((\<forall>n \<in> set (fetch_parallel_node_ids es). map_of (ps_node_parallel_mapping st) n \<noteq> None)
                \<longrightarrow> parent_parallel_id p
                      = map_of (ps_node_parallel_mapping st) (hd (fetch_parallel_node_ids es)))
           \<and> ((\<forall>n \<in> set (fetch_parallel_node_ids es). map_of (ps_node_parallel_mapping st) n = Some s)
                \<longrightarrow> parent_parallel_id p = Some s)
           \<and> ((\<exists>n \<in> set (fetch_parallel_node_ids es). map_of (ps_node_parallel_mapping st) n = None)
                \<longrightarrow> parent_parallel_id p = None)"
proof -
  let ?pids = "fetch_parallel_node_ids es"
  let ?npm = "ps_node_parallel_mapping st"
  let ?p = "\<lparr>gp_id = ps_uuid_count st,
             parent_parallel_id = fetch_parent_parallel_id ?npm ?pids\<rparr>"
  have "map_of (ps_parallel_mapping (add_parallel_at em es st)) (ps_uuid_count st) = Some ?p"
    by (simp add: add_parallel_at_fan_out [OF assms] update_conv')
  moreover have "hd ?pids \<in> set ?pids"
    using assms(2) by simp
  then have "(\<forall>n \<in> set ?pids. map_of ?npm n = Some s) \<longrightarrow> map_of ?npm (hd ?pids) = Some s"
    by blast
  then have "(\<forall>n \<in> set ?pids. map_of ?npm n = Some s) \<longrightarrow> parent_parallel_id ?p = Some s"
    by (auto simp add: fetch_parent_parallel_id_def list_all_iff)
  moreover have "(\<forall>n \<in> set ?pids. map_of ?npm n \<noteq> None)
      \<longrightarrow> parent_parallel_id ?p = map_of ?npm (hd ?pids)"
    by (simp add: fetch_parent_parallel_id_def list_all_iff)
  moreover have "(\<exists>n \<in> set ?pids. map_of ?npm n = None) \<longrightarrow> parent_parallel_id ?p = None"
    by (auto simp add: fetch_parent_parallel_id_def list_all_iff)
  ultimately show ?thesis by simp
qed

theorem add_parallel_at_parent_witness:
  "\<exists>p. map_of (ps_parallel_mapping
             (add_parallel_at crossing_edge_mapping (edges_get crossing_edge_mapping ''B'')
                crossing_state)) 2 = Some p
       \<and> gp_id p = 2 \<and> parent_parallel_id p = Some 1"
proof -
  have len: "1 < length (edges_get crossing_edge_mapping ''B'')"
    by code_simp
  have pids: "fetch_parallel_node_ids (edges_get crossing_edge_mapping ''B'') = [''C'', ''A'']"
    by code_simp
  then have ne: "fetch_parallel_node_ids (edges_get crossing_edge_mapping ''B'') \<noteq> []"
    by simp
  from add_parallel_at_parent [OF len ne, of crossing_edge_mapping crossing_state 1]
  show ?thesis
    by (simp add: pids crossing_state_def)
qed

lemma crossing_init_edges: "fst (init_edges crossing_edges) = crossing_edge_mapping"
  by code_simp

lemma nested_init_edges: "fst (init_edges nested_edges) = nested_edge_mapping"
  by code_simp

text \<open>
  Claim C2 as stated fails.  In the first configuration the walk reaches \<open>B\<close> with the
  branch roots \<open>C\<close> and \<open>A\<close> recorded in the two different scopes 1 and 0; the scope created
  there gets the parent 1, where the specification's linkage gives none, and \<open>init\<close>
  returns it so.  In the second configuration the fan-out at \<open>B\<close> lies inside the branch
  of \<open>B\<close> (the branch owns \<open>B\<close>, \<open>E\<close> and \<open>F\<close>), yet its scope has no parent: of the
  owned nodes only the branch roots were recorded.
\<close>

theorem parent_of_differently_scoped_roots:
  "recursively_add_parallels 3 crossing_edge_mapping ''A''
      (add_parallel_at crossing_edge_mapping (edges_get crossing_edge_mapping ''R'') parallels_state0)
     = Some \<lparr>ps_parallel_mapping =
               [(0, \<lparr>gp_id = 0, parent_parallel_id = None\<rparr>),
                (1, \<lparr>gp_id = 1, parent_parallel_id = None\<rparr>)],
             ps_node_parallel_mapping = [(''A'', 0), (''B'', 0), (''C'', 1), (''D'', 1)],
             ps_uuid_count = 2\<rparr>
   \<and> fetch_parallel_node_ids (edges_get crossing_edge_mapping ''B'') = [''C'', ''A'']
   \<and> map_of (ps_parallel_mapping
         (add_parallel_at crossing_edge_mapping (edges_get crossing_edge_mapping ''B'')
            \<lparr>ps_parallel_mapping =
               [(0, \<lparr>gp_id = 0, parent_parallel_id = None\<rparr>),
                (1, \<lparr>gp_id = 1, parent_parallel_id = None\<rparr>)],
             ps_node_parallel_mapping = [(''A'', 0), (''B'', 0), (''C'', 1), (''D'', 1)],
             ps_uuid_count = 2\<rparr>)) 2
     = Some \<lparr>gp_id = 2, parent_parallel_id = Some 1\<rparr>
   \<and> spec_parent_parallel_id [(''A'', 0), (''B'', 0), (''C'', 1), (''D'', 1)] [''C'', ''A''] = None
   \<and> map_option (map_sum id parallel_mapping)
        (init 4 crossing_config () (Some ''R'') :: (error + unit graph) option)
     = Some (Inr [(0, \<lparr>gp_id = 0, parent_parallel_id = None\<rparr>),
                  (1, \<lparr>gp_id = 1, parent_parallel_id = None\<rparr>),
                  (2, \<lparr>gp_id = 2, parent_parallel_id = Some 1\<rparr>),
                  (3, \<lparr>gp_id = 3, parent_parallel_id = Some 2\<rparr>)])
   \<and> fetch_all_node_ids_in_parallels nested_edge_mapping [''B'', ''C'']
     = [(''B'', [''B'', ''E'', ''F'']), (''C'', [''C''])]
   \<and> map_option (map_sum id (\<lambda>g. (parallel_mapping g, node_parallel_mapping g)))
        (init 3 nested_config () (Some ''R'') :: (error + unit graph) option)
     = Some (Inr ([(0, \<lparr>gp_id = 0, parent_parallel_id = None\<rparr>),
                   (1, \<lparr>gp_id = 1, parent_parallel_id = None\<rparr>)],
                  [(''B'', 0), (''C'', 0), (''E'', 1), (''F'', 1)]))"
  by code_simp

subsection \<open>Termination of the construction\<close>

text \<open>The adjacency is finite, and every stored target was recorded as an edge target.\<close>

lemma edges_get_all_targets:
  "target_node_id ` set (edges_get em n) \<subseteq> all_targets em"
proof (cases "map_of em n")
  case None
  then show ?thesis by (simp add: edges_get_def)
next
  case (Some es)
  then have "(n, es) \<in> set em" by (rule map_of_SomeD)
  then have "target_node_id ` set es \<subseteq> all_targets em"
    by (force simp add: all_targets_def)
  with Some show ?thesis by (simp add: edges_get_def)
qed

lemma edge_rel_subset: "edge_rel em \<subseteq> fst ` set em \<times> all_targets em"
proof
  fix p
  assume "p \<in> edge_rel em"
  then obtain n t where p: "p = (n, t)" and t: "t \<in> target_node_id ` set (edges_get em n)"
    by (auto simp add: edge_rel_def)
  from t have "edges_get em n \<noteq> []" by auto
  then have "map_of em n \<noteq> None" by (auto simp add: edges_get_def split: option.splits)
  then have "n \<in> fst ` set em" by (simp add: map_of_eq_None_iff)
  moreover from t edges_get_all_targets have "t \<in> all_targets em" by blast
  ultimately show "p \<in> fst ` set em \<times> all_targets em" using p by simp
qed

lemma finite_edge_rel: "finite (edge_rel em)"
proof (rule finite_subset [OF edge_rel_subset])
  show "finite (fst ` set em \<times> all_targets em)"
    by (simp add: all_targets_def)
qed

text \<open>
  On the part of the adjacency that is reachable from \<open>r\<close> and acyclic, the unguarded walk
  returns within some depth, whatever the state it starts with.
\<close>

lemma recursively_add_parallels_loop_returns:
  assumes "\<forall>e \<in> set es. \<exists>n. \<forall>k\<ge>n. \<forall>st. recursively_add_parallels k em (target_node_id e) st \<noteq> None"
  shows "\<exists>n. \<forall>k\<ge>n. \<forall>st. recursively_add_parallels_loop k em es st \<noteq> None"
  using assms
proof (induction es)
  case Nil
  show ?case by simp
next
  case (Cons e es)
  then obtain n1 where n1: "\<forall>k\<ge>n1. \<forall>st. recursively_add_parallels_loop k em es st \<noteq> None"
    by auto
  from Cons.prems obtain n2
    where n2: "\<forall>k\<ge>n2. \<forall>st. recursively_add_parallels k em (target_node_id e) st \<noteq> None"
    by auto
  have "\<forall>k\<ge>max n1 n2. \<forall>st. recursively_add_parallels_loop k em (e # es) st \<noteq> None"
  proof (intro allI impI)
    fix k st
    assume k: "max n1 n2 \<le> k"
    then obtain st' where "recursively_add_parallels k em (target_node_id e) st = Some st'"
      using n2 by (metis max.bounded_iff not_None_eq)
    moreover have "recursively_add_parallels_loop k em es st' \<noteq> None"
      using n1 k by simp
    ultimately show "recursively_add_parallels_loop k em (e # es) st \<noteq> None"
      by simp
  qed
  then show ?case by blast
qed

lemma recursively_add_parallels_returns:
  assumes acyc: "acyclic {(a, b). (a, b) \<in> edge_rel em \<and> (r, a) \<in> (edge_rel em)\<^sup>*}"
    and reach: "(r, a) \<in> (edge_rel em)\<^sup>*"
  shows "\<exists>n. \<forall>k\<ge>n. \<forall>st. recursively_add_parallels k em a st \<noteq> None"
proof -
  let ?R = "{(a, b). (a, b) \<in> edge_rel em \<and> (r, a) \<in> (edge_rel em)\<^sup>*}"
  have "finite ?R"
    by (rule finite_subset [OF _ finite_edge_rel]) auto
  then have "wf (?R\<inverse>)"
    using acyc by (rule finite_acyclic_wf_converse)
  then show ?thesis
    using reach
  proof (induction a rule: wf_induct_rule)
    case (less a)
    have "\<forall>e \<in> set (edges_get em a).
            \<exists>n. \<forall>k\<ge>n. \<forall>st. recursively_add_parallels k em (target_node_id e) st \<noteq> None"
    proof
      fix e
      assume "e \<in> set (edges_get em a)"
      then have step: "(a, target_node_id e) \<in> edge_rel em"
        by (simp add: edge_rel_def)
      with less.prems have "(target_node_id e, a) \<in> ?R\<inverse>"
        and "(r, target_node_id e) \<in> (edge_rel em)\<^sup>*"
        by auto
      then show "\<exists>n. \<forall>k\<ge>n. \<forall>st. recursively_add_parallels k em (target_node_id e) st \<noteq> None"
        by (rule less.IH)
    qed
    then obtain n
      where n: "\<forall>k\<ge>n. \<forall>st. recursively_add_parallels_loop k em (edges_get em a) st \<noteq> None"
      using recursively_add_parallels_loop_returns by blast
    have "\<forall>k\<ge>Suc n. \<forall>st. recursively_add_parallels k em a st \<noteq> None"
    proof (intro allI impI)
      fix k st
      assume "Suc n \<le> k"
      then obtain k' where "k = Suc k'" "n \<le> k'"
        by (cases k) auto
      with n show "recursively_add_parallels k em a st \<noteq> None"
        by (simp add: Let_def)
    qed
    then show ?case by blast
  qed
qed

text \<open>The targets \<open>init\<close> collects cover the adjacency it builds.\<close>

lemma edges_get_setdefault_empty [simp]:
  "edges_get (setdefault_empty s em) n = edges_get em n"
  by (simp add: setdefault_empty_def edges_get_def update_conv' split: option.splits)

lemma edges_get_update:
  "edges_get (AList.update s v em) n = (if n = s then v else edges_get em n)"
  by (simp add: edges_get_def update_conv')

lemma init_edge_targets:
  assumes "\<forall>n. target_node_id ` set (edges_get (fst acc) n) \<subseteq> snd acc"
  shows "\<forall>n. target_node_id ` set (edges_get (fst (init_edge c acc)) n) \<subseteq> snd (init_edge c acc)"
  using assms
  by (auto simp add: init_edge_def Let_def edges_get_update split: option.splits)

lemma fold_init_edge_targets:
  assumes "\<forall>n. target_node_id ` set (edges_get (fst acc) n) \<subseteq> snd acc"
  shows "\<forall>n. target_node_id ` set (edges_get (fst (fold init_edge cs acc)) n)
              \<subseteq> snd (fold init_edge cs acc)"
  using assms
proof (induction cs arbitrary: acc)
  case Nil
  then show ?case by simp
next
  case (Cons c cs)
  from Cons.prems have "\<forall>n. target_node_id ` set (edges_get (fst (init_edge c acc)) n)
                              \<subseteq> snd (init_edge c acc)"
    by (rule init_edge_targets)
  then show ?case
    using Cons.IH by simp
qed

lemma init_edges_targets:
  assumes "(a, b) \<in> edge_rel (fst (init_edges cs))"
  shows "b \<in> snd (init_edges cs)"
proof -
  have "\<forall>n. target_node_id ` set (edges_get (fst (init_edges cs)) n) \<subseteq> snd (init_edges cs)"
    unfolding init_edges_def by (rule fold_init_edge_targets) (simp add: edges_get_def)
  with assms show ?thesis
    by (auto simp add: edge_rel_def)
qed

text \<open>
  The ways through \<open>init\<close>: one of the two errors of lines 133 and 156, or a root that
  is no edge target and the unguarded walk from it.
\<close>

lemma init_cases:
  "init depth cfg vpool root_id = Some (Inl GraphMustHaveNode)
   \<or> init depth cfg vpool root_id = Some (Inl RootNodeNotFound)
   \<or> (\<exists>r. root_id = Some r
          \<and> r \<notin> snd (init_edges (case gc_edges cfg of None \<Rightarrow> [] | Some cs \<Rightarrow> cs))
          \<and> (recursively_add_parallels depth (config_edge_mapping cfg) r parallels_state0 \<noteq> None
                \<longrightarrow> (\<exists>g. init depth cfg vpool root_id = Some (Inr g))))"
proof (cases "falsy root_id")
  case True
  from init_no_root_id [OF this, of depth cfg vpool] show ?thesis by blast
next
  case False
  then obtain r where r: "root_id = Some r" "r \<noteq> []"
    by (auto simp add: falsy_def split: option.splits)
  then show ?thesis
    by (auto simp add: init_def Let_def fetch_root_node_def check_root_node_def falsy_def
          config_edge_mapping_def parallels_state0_def fetch_root_node_configs_def
          split: option.splits)
qed

text \<open>
  Claim C3.  If the graph reachable from the given root is acyclic apart from edges back
  into the root, \<open>init\<close> returns (a graph or an error) for every large enough bound on the
  depth of the walk that has no visited set; the three guarded walks are total functions.
  With an edge back into the root the root is an edge target, so line 155 rejects it and
  no traversal is started; without one the reachable graph is acyclic and the unguarded
  walk returns.
\<close>

theorem init_returns:
  assumes "\<forall>r. root_id = Some r \<longrightarrow> acyclic_but_root (config_edge_mapping cfg) r"
  shows "\<exists>n. \<forall>depth\<ge>n. \<exists>res. init depth cfg vpool root_id = Some res"
proof -
  let ?em = "config_edge_mapping cfg"
  let ?cs = "case gc_edges cfg of None \<Rightarrow> [] | Some cs \<Rightarrow> cs"
  show ?thesis
  proof (cases "\<exists>r. root_id = Some r \<and> r \<notin> snd (init_edges ?cs)")
    case False
    then have "\<exists>res. init depth cfg vpool root_id = Some res" for depth
      using init_cases [of depth cfg vpool root_id] by blast
    then show ?thesis by blast
  next
    case True
    then obtain r where r: "root_id = Some r" "r \<notin> snd (init_edges ?cs)"
      by blast
    have no_back: "b \<noteq> r" if "(a, b) \<in> edge_rel ?em" for a b
      using that r(2) init_edges_targets [of a b ?cs] by (auto simp add: config_edge_mapping_def)
    have "{(a, b). (a, b) \<in> edge_rel ?em \<and> (r, a) \<in> (edge_rel ?em)\<^sup>*}
            = {(a, b). (a, b) \<in> edge_rel ?em \<and> (r, a) \<in> (edge_rel ?em)\<^sup>* \<and> b \<noteq> r}"
      using no_back by auto
    then have "acyclic {(a, b). (a, b) \<in> edge_rel ?em \<and> (r, a) \<in> (edge_rel ?em)\<^sup>*}"
      using assms r(1) by (simp add: acyclic_but_root_def)
    then obtain n where n: "\<forall>k\<ge>n. \<forall>st. recursively_add_parallels k ?em r st \<noteq> None"
      using recursively_add_parallels_returns [of ?em r r] by blast
    have "\<exists>res. init depth cfg vpool root_id = Some res" if "n \<le> depth" for depth
    proof -
      from n that have "recursively_add_parallels depth ?em r parallels_state0 \<noteq> None"
        by simp
      then show ?thesis
        using init_cases [of depth cfg vpool root_id] r(1) by auto
    qed
    then show ?thesis by blast
  qed
qed

lemma loop_back_init_edges:
  "config_edge_mapping loop_back_config
     = [(''A'', [ex_edge ''A'' ''B'']), (''B'', [ex_edge ''B'' ''A''])]"
  by code_simp

lemma loop_back_acyclic_but_root:
  "acyclic_but_root (config_edge_mapping loop_back_config) ''A''"
proof -
  let ?em = "[(''A'', [ex_edge ''A'' ''B'']), (''B'', [ex_edge ''B'' ''A''])]"
  have "{(a, b). (a, b) \<in> edge_rel ?em \<and> (''A'', a) \<in> (edge_rel ?em)\<^sup>* \<and> b \<noteq> ''A''}
          \<subseteq> {(''A'', ''B'')}"
    by (auto simp add: edge_rel_def edges_get_def ex_edge_def split: if_splits)
  moreover have "acyclic {(''A'', ''B'')}"
    by (rule acyclicI_order [where f = "\<lambda>n. if n = ''A'' then 1 else (0 :: nat)"]) simp
  ultimately show ?thesis
    unfolding acyclic_but_root_def loop_back_init_edges by (rule acyclic_subset [rotated])
qed

lemma diamond_config_edge_mapping: "config_edge_mapping diamond_config = diamond_edge_mapping"
  by (simp add: config_edge_mapping_def diamond_config_def diamond_init_edges)

lemma diamond_acyclic_but_root:
  "acyclic_but_root (config_edge_mapping diamond_config) ''A''"
proof -
  let ?rank = "\<lambda>n. if n = ''A'' then 3 else if n = ''D'' then 1 else (2 :: nat)"
  have "acyclic (edge_rel diamond_edge_mapping)"
  proof (rule acyclicI_order [where f = ?rank])
    fix a b
    assume "(a, b) \<in> edge_rel diamond_edge_mapping"
    then show "?rank b < ?rank a"
      by (auto simp add: edge_rel_def edges_get_def diamond_edge_mapping_def ex_edge_def
            cond_edge_def split: if_splits)
  qed
  then show ?thesis
    unfolding acyclic_but_root_def diamond_config_edge_mapping
    by (rule acyclic_subset) auto
qed

theorem init_returns_witness:
  "(\<exists>n. \<forall>depth\<ge>n. \<exists>res. init depth loop_back_config () (Some ''A'') = Some res)
   \<and> (\<exists>n. \<forall>depth\<ge>n. \<exists>res. init depth diamond_config () (Some ''A'') = Some res)"
proof
  show "\<exists>n. \<forall>depth\<ge>n. \<exists>res. init depth loop_back_config () (Some ''A'') = Some res"
    by (rule init_returns) (simp add: loop_back_acyclic_but_root)
  show "\<exists>n. \<forall>depth\<ge>n. \<exists>res. init depth diamond_config () (Some ''A'') = Some res"
    by (rule init_returns) (simp add: diamond_acyclic_but_root)
qed

text \<open>
  For the loop-back pattern itself the construction ends with the error of line 156, at
  every depth bound.  It is the root check that ends it: on that adjacency the walk without
  a visited set returns at no depth.
\<close>

lemma loop_back_init:
  "init depth loop_back_config vpool (Some ''A'') = Some (Inl RootNodeNotFound)"
  by (simp add: init_def loop_back_config_def loop_back_edges_def edge_cfg_def node_cfg_def
        init_edges_def init_edge_def Let_def fetch_root_node_configs_def fetch_root_node_def
        check_root_node_def falsy_def setdefault_empty_def edges_get_def)

lemma loop_back_walk_never_returns:
  "recursively_add_parallels depth [(''A'', [ex_edge ''A'' ''B'']), (''B'', [ex_edge ''B'' ''A''])] ''A'' st = None
   \<and> recursively_add_parallels depth [(''A'', [ex_edge ''A'' ''B'']), (''B'', [ex_edge ''B'' ''A''])] ''B'' st = None"
proof (induction depth arbitrary: st)
  case 0
  show ?case by simp
next
  case (Suc depth)
  then show ?case
    by (simp add: edges_get_def ex_edge_def Let_def)
qed

end
